theory Spec2Isabelle
  imports Main "HOL-Library.Word"
begin

unbundle bit_operations_syntax

section \<open>The packed value representation of gason.h\<close>

subsection \<open>Constants and enumerations\<close>

text \<open>
  The five macros of the header. The three masks are 64-bit unsigned literals
  (suffix ULL); \<open>JSON_VALUE_TAG_MASK\<close> and \<open>JSON_VALUE_TAG_SHIFT\<close> are plain
  \<open>int\<close> literals, converted where an expression mixes them with a 64-bit operand.
\<close>

definition JSON_VALUE_PAYLOAD_MASK :: "64 word" where
  "JSON_VALUE_PAYLOAD_MASK = 0x00007FFFFFFFFFFF"

definition JSON_VALUE_NAN_MASK :: "64 word" where
  "JSON_VALUE_NAN_MASK = 0x7FF8000000000000"

definition JSON_VALUE_NULL :: "64 word" where
  "JSON_VALUE_NULL = 0x7FFF800000000000"

definition JSON_VALUE_TAG_MASK :: int where
  "JSON_VALUE_TAG_MASK = 0xF"

definition JSON_VALUE_TAG_SHIFT :: nat where
  "JSON_VALUE_TAG_SHIFT = 47"

text \<open>
  \<open>enum JsonTag\<close> is an unscoped enumeration that the code converts from and to
  integers (\<open>(int)tag\<close>, \<open>(uint64_t)tag\<close>, \<open>JsonTag(...)\<close> of a masked word). An
  object of the enumeration is 32 bits wide, so a tag is modelled by the 32-bit word
  it holds. The enumerators are 0, 1, 2, 3, 4 and 0xF; the codes 5 to 14 have no name
  but are what \<open>getTag\<close> returns for a word that carries them, and a word above 0xF
  is what a caller passes who converts some other integer to \<open>JsonTag\<close>.
\<close>

type_synonym JsonTag = "32 word"

definition JSON_TAG_NUMBER :: JsonTag where "JSON_TAG_NUMBER = 0"
definition JSON_TAG_STRING :: JsonTag where "JSON_TAG_STRING = 1"
definition JSON_TAG_BOOL :: JsonTag where "JSON_TAG_BOOL = 2"
definition JSON_TAG_ARRAY :: JsonTag where "JSON_TAG_ARRAY = 3"
definition JSON_TAG_OBJECT :: JsonTag where "JSON_TAG_OBJECT = 4"
definition JSON_TAG_NULL :: JsonTag where "JSON_TAG_NULL = 0xF"

text \<open>\<open>enum JsonParseStatus\<close>: eight enumerators, never converted from an integer.\<close>

datatype JsonParseStatus =
    JSON_PARSE_OK
  | JSON_PARSE_BAD_NUMBER
  | JSON_PARSE_BAD_STRING
  | JSON_PARSE_UNKNOWN_IDENTIFIER
  | JSON_PARSE_OVERFLOW
  | JSON_PARSE_UNDERFLOW
  | JSON_PARSE_MISMATCH_BRACKET
  | JSON_PARSE_UNEXPECTED_CHARACTER

text \<open>The integer value of each enumerator, counted from 0 in declaration order.\<close>

fun status_code :: "JsonParseStatus \<Rightarrow> nat" where
  "status_code JSON_PARSE_OK = 0"
| "status_code JSON_PARSE_BAD_NUMBER = 1"
| "status_code JSON_PARSE_BAD_STRING = 2"
| "status_code JSON_PARSE_UNKNOWN_IDENTIFIER = 3"
| "status_code JSON_PARSE_OVERFLOW = 4"
| "status_code JSON_PARSE_UNDERFLOW = 5"
| "status_code JSON_PARSE_MISMATCH_BRACKET = 6"
| "status_code JSON_PARSE_UNEXPECTED_CHARACTER = 7"

text \<open>The enumerators other than \<open>JSON_PARSE_OK\<close>, in declaration order.\<close>

definition json_parse_errors :: "JsonParseStatus list" where
  "json_parse_errors =
     [JSON_PARSE_BAD_NUMBER, JSON_PARSE_BAD_STRING, JSON_PARSE_UNKNOWN_IDENTIFIER,
      JSON_PARSE_OVERFLOW, JSON_PARSE_UNDERFLOW, JSON_PARSE_MISMATCH_BRACKET,
      JSON_PARSE_UNEXPECTED_CHARACTER]"

subsection \<open>Doubles, pointers and assertions\<close>

text \<open>
  A \<open>double\<close> is modelled by its IEEE-754 binary64 encoding: sign in bit 63, eleven
  exponent bits 62..52, 52 fraction bits. The union \<open>data\<close> overlays this encoding
  with the \<open>uint64_t\<close> member, which is all the header uses of a double: no
  arithmetic on doubles occurs in it. A NaN is an encoding whose exponent bits are all
  set and whose fraction is not zero.
\<close>

datatype double = Double (double_bits: "64 word")

definition double_isnan :: "double \<Rightarrow> bool" where
  "double_isnan x \<longleftrightarrow>
     double_bits x AND 0x7FF0000000000000 = 0x7FF0000000000000 \<and>
     double_bits x AND 0x000FFFFFFFFFFFFF \<noteq> 0"

definition double_pos_infinity :: double where
  "double_pos_infinity = Double 0x7FF0000000000000"

text \<open>
  Pointers (\<open>void *\<close>, \<open>char *\<close>, \<open>JsonElement *\<close>, \<open>JsonPair *\<close>, \<open>Zone *\<close>) are
  64-bit addresses, as the cast \<open>(uint64_t)p\<close> of the tagged constructor takes them.
\<close>

type_synonym pointer = "64 word"

definition nullptr :: pointer where
  "nullptr = 0"

text \<open>
  \<open>assert\<close> of \<open>assert.h\<close> aborts the program when its condition is false. A
  function that asserts returns \<open>Inl AssertionFailed\<close> in that case and \<open>Inr\<close> of its
  result otherwise.
\<close>

datatype abort = AssertionFailed

subsection \<open>struct JsonAllocator\<close>

record Zone =
  zone_next :: pointer
  zone_end :: pointer

record JsonAllocator =
  head :: pointer

text \<open>
  The implicit default constructor: the default member initialiser
  \<open>Zone *head = nullptr\<close> is all it runs. It takes the memory it runs in and returns it
  as it was.
\<close>

definition JsonAllocator_ctor :: "'mem \<Rightarrow> JsonAllocator \<times> 'mem" where
  "JsonAllocator_ctor m = (\<lparr>head = nullptr\<rparr>, m)"

text \<open>
  The zones an allocator owns are the cells reached from \<open>head\<close> through \<open>next\<close>,
  up to the first null pointer, in a memory that maps the address of each zone to
  its header.
\<close>

inductive zone_chain :: "(pointer \<rightharpoonup> Zone) \<Rightarrow> pointer \<Rightarrow> pointer list \<Rightarrow> bool" where
  chain_end: "p = nullptr \<Longrightarrow> zone_chain m p []"
| chain_step: "p \<noteq> nullptr \<Longrightarrow> m p = Some z \<Longrightarrow> zone_chain m (zone_next z) ps \<Longrightarrow>
     zone_chain m p (p # ps)"

subsection \<open>struct JsonValue\<close>

text \<open>
  The union \<open>data\<close> is one 64-bit cell: \<open>data_i\<close> is its \<open>uint64_t\<close> member and
  \<open>data_f\<close> reads the same cell as a double.
\<close>

record JsonValue =
  data_i :: "64 word"

definition data_f :: "JsonValue \<Rightarrow> double" where
  "data_f v = Double (data_i v)"

definition JsonValue_default :: JsonValue where
  "JsonValue_default = \<lparr>data_i = JSON_VALUE_NULL\<rparr>"

text \<open>
  The tagged constructor. \<open>(int)tag\<close> reads the 32 bits of the tag as a signed
  \<open>int\<close>, so a tag with bit 31 set is negative and passes the first assertion.
  \<open>(uint64_t)tag\<close> widens the 32 bits to 64; the shift by 47 keeps only the low 17
  of them, so the stored word is the same whether the widening fills with zeros or
  with the sign.
\<close>

definition JsonValue_tagged :: "JsonTag \<Rightarrow> pointer \<Rightarrow> abort + JsonValue" where
  "JsonValue_tagged tag p =
     (let x = p in
      if \<not> sint tag \<le> JSON_VALUE_TAG_MASK then Inl AssertionFailed
      else if \<not> x \<le> JSON_VALUE_PAYLOAD_MASK then Inl AssertionFailed
      else Inr \<lparr>data_i =
             JSON_VALUE_NAN_MASK OR push_bit JSON_VALUE_TAG_SHIFT (ucast tag) OR x\<rparr>)"

definition JsonValue_double :: "double \<Rightarrow> JsonValue" where
  "JsonValue_double x = \<lparr>data_i = double_bits x\<rparr>"

definition operator_bool :: "JsonValue \<Rightarrow> bool" where
  "operator_bool v \<longleftrightarrow> data_i v \<noteq> JSON_VALUE_NULL"

definition isDouble :: "JsonValue \<Rightarrow> bool" where
  "isDouble v \<longleftrightarrow> sint (data_i v) \<le> sint JSON_VALUE_NAN_MASK"

definition getTag :: "JsonValue \<Rightarrow> JsonTag" where
  "getTag v =
     (if isDouble v then JSON_TAG_NUMBER
      else ucast (drop_bit JSON_VALUE_TAG_SHIFT (data_i v) AND word_of_int JSON_VALUE_TAG_MASK))"

definition getPayload :: "JsonValue \<Rightarrow> abort + 64 word" where
  "getPayload v =
     (if \<not> \<not> isDouble v then Inl AssertionFailed
      else Inr (data_i v AND JSON_VALUE_PAYLOAD_MASK))"

definition toNumber :: "JsonValue \<Rightarrow> abort + double" where
  "toNumber v =
     (if \<not> getTag v = JSON_TAG_NUMBER then Inl AssertionFailed
      else Inr (data_f v))"

definition toBool :: "JsonValue \<Rightarrow> abort + bool" where
  "toBool v =
     (if \<not> getTag v = JSON_TAG_BOOL then Inl AssertionFailed
      else case getPayload v of Inl e \<Rightarrow> Inl e | Inr w \<Rightarrow> Inr (w \<noteq> 0))"

definition toString :: "JsonValue \<Rightarrow> abort + pointer" where
  "toString v =
     (if \<not> getTag v = JSON_TAG_STRING then Inl AssertionFailed
      else getPayload v)"

definition toElement :: "JsonValue \<Rightarrow> abort + pointer" where
  "toElement v =
     (if \<not> getTag v = JSON_TAG_ARRAY then Inl AssertionFailed
      else getPayload v)"

definition toPair :: "JsonValue \<Rightarrow> abort + pointer" where
  "toPair v =
     (if \<not> getTag v = JSON_TAG_OBJECT then Inl AssertionFailed
      else getPayload v)"

record JsonElement =
  elem_next :: pointer
  elem_value :: JsonValue

record JsonPair =
  pair_next :: pointer
  pair_key :: pointer
  pair_value :: JsonValue

section \<open>The parser, modelled from the specification\<close>

text \<open>
  The header declares \<open>json_parse\<close> and gives it no body, and the other source file
  is a benchmark that only calls a parser. The definitions of this section are
  therefore written from the specification, each under the sentence it follows.
\<close>

subsection \<open>The document tree\<close>

text \<open>
  Modelled from the spec: the value that the missing body of \<open>json_parse\<close> stores
  for a number. Section 3 gives a \<open>Number\<close> a double; the model keeps the exact
  decimal value of the literal, a mantissa and a power of ten, and leaves the
  rounding to binary64 out.
\<close>

type_synonym decimal = "int \<times> int"

text \<open>
  Modelled from the spec: the tree that the missing body of \<open>json_parse\<close> builds,
  after section 3: a tagged union over \<open>Null\<close>, \<open>Bool\<close>, \<open>Number\<close>, \<open>String\<close>,
  \<open>Array\<close> (head reference to an Element list) and \<open>Object\<close> (head reference to a
  Pair list). A list of the model is the chain of cells in link order, from the head
  to the end; an Element carries a value and a Pair a key and a value.
\<close>

datatype Value =
    Null
  | Bool bool
  | Number decimal
  | String string
  | Array "Value list"
  | Object "(string \<times> Value) list"

subsection \<open>Characters\<close>

text \<open>
  Modelled from the spec: the whitespace that the missing tokenizer skips between
  tokens (section 4.3): space, tab, newline, carriage return.
\<close>

definition is_space :: "char \<Rightarrow> bool" where
  "is_space c \<longleftrightarrow> c \<in> set [CHR '' '', CHR 0x09, CHR 0x0A, CHR 0x0D]"

text \<open>Modelled from the spec: the decimal digits of a number literal of the missing tokenizer.\<close>

definition is_digit :: "char \<Rightarrow> bool" where
  "is_digit c \<longleftrightarrow> c \<in> set ''0123456789''"

text \<open>
  Modelled from the spec: the letters that start a bare identifier of the missing
  tokenizer (section 4.3, "anything starting with a letter").
\<close>

definition is_letter :: "char \<Rightarrow> bool" where
  "is_letter c \<longleftrightarrow> c \<in> set ''abcdefghijklmnopqrstuvwxyzABCDEFGHIJKLMNOPQRSTUVWXYZ''"

text \<open>
  Modelled from the spec: the characters that may follow a number literal of the
  missing tokenizer: whitespace, a separator or a closing bracket (the end of the
  text is the other possibility). Section 8 has \<open>01\<close> and \<open>1.2.3\<close> rejected as bad
  numbers, so a literal does not end before another digit or a second dot.
\<close>

definition is_delim :: "char \<Rightarrow> bool" where
  "is_delim c \<longleftrightarrow> is_space c \<or> c \<in> set '',:]}''"

text \<open>Modelled from the spec: the value of a decimal digit read by the missing tokenizer.\<close>

definition digit_value :: "char \<Rightarrow> nat" where
  "digit_value c = of_char c - of_char (CHR ''0'')"

text \<open>Modelled from the spec: the value of a run of decimal digits read by the missing tokenizer.\<close>

definition decimal_value :: "string \<Rightarrow> nat" where
  "decimal_value ds = foldl (\<lambda>n c. 10 * n + digit_value c) 0 ds"

text \<open>
  Modelled from the spec: the hexadecimal digits of a \<open>\uXXXX\<close> escape read by the
  missing tokenizer, in either case.
\<close>

definition is_hex :: "char \<Rightarrow> bool" where
  "is_hex c \<longleftrightarrow> c \<in> set ''0123456789abcdefABCDEF''"

text \<open>Modelled from the spec: the value of a hexadecimal digit of a \<open>\uXXXX\<close> escape.\<close>

definition hex_value :: "char \<Rightarrow> nat" where
  "hex_value c =
     (if is_digit c then of_char c - of_char (CHR ''0'')
      else if c \<in> set ''abcdef'' then of_char c - of_char (CHR ''a'') + 10
      else of_char c - of_char (CHR ''A'') + 10)"

subsection \<open>Tokens\<close>

text \<open>
  Modelled from the spec: the tokens of the grammar that the missing tokenizer
  hands to the builder (section 4.3): the brackets of objects and arrays, the two
  separators, strings, numbers and the literals \<open>true\<close>, \<open>false\<close>, \<open>null\<close>.
\<close>

datatype token =
    LBrace
  | RBrace
  | LBracket
  | RBracket
  | Comma
  | Colon
  | TString string
  | TNumber decimal
  | TTrue
  | TFalse
  | TNull

subsection \<open>Strings\<close>

text \<open>
  Modelled from the spec: the four hexadecimal digits of a \<open>\uXXXX\<close> escape of the
  missing tokenizer; fewer than four is malformed (section 8).
\<close>

definition hex4 :: "string \<Rightarrow> nat option" where
  "hex4 cs =
     (if 4 \<le> length cs \<and> list_all is_hex (take 4 cs)
      then Some (foldl (\<lambda>n c. 16 * n + hex_value c) 0 (take 4 cs))
      else None)"

text \<open>
  Modelled from the spec: the bytes that the missing tokenizer writes for a decoded
  code point. Strings are byte slices (section 3) and section 8 has \<open>\u0041\<close> decode
  to \<open>A\<close>, so a code point is written in UTF-8.
\<close>

definition utf8 :: "nat \<Rightarrow> string" where
  "utf8 cp =
     (if cp < 0x80 then [char_of cp]
      else if cp < 0x800 then
        [char_of (0xC0 + cp div 0x40), char_of (0x80 + cp mod 0x40)]
      else if cp < 0x10000 then
        [char_of (0xE0 + cp div 0x1000), char_of (0x80 + cp div 0x40 mod 0x40),
         char_of (0x80 + cp mod 0x40)]
      else
        [char_of (0xF0 + cp div 0x40000), char_of (0x80 + cp div 0x1000 mod 0x40),
         char_of (0x80 + cp div 0x40 mod 0x40), char_of (0x80 + cp mod 0x40)])"

text \<open>
  Modelled from the spec: the decoding of a \<open>\uXXXX\<close> escape by the missing
  tokenizer, "including surrogate-pair combination for code points above the basic
  plane" (section 4.3). The argument is the text after \<open>\u\<close>; the result is the
  decoded bytes and the number of characters read. A high surrogate directly followed
  by the escape of a low surrogate is combined with it; any other unit is decoded by
  itself.
\<close>

definition scan_unicode :: "string \<Rightarrow> (string \<times> nat) option" where
  "scan_unicode cs =
     (case hex4 cs of
        None \<Rightarrow> None
      | Some u \<Rightarrow>
          (case (if 0xD800 \<le> u \<and> u < 0xDC00 \<and> take 2 (drop 4 cs) = [CHR 0x5C, CHR ''u'']
                 then hex4 (drop 6 cs) else None) of
             None \<Rightarrow> Some (utf8 u, 4)
           | Some l \<Rightarrow>
               if 0xDC00 \<le> l \<and> l < 0xE000
               then Some (utf8 (0x10000 + (u - 0xD800) * 0x400 + (l - 0xDC00)), 10)
               else Some (utf8 u, 4)))"

text \<open>
  Modelled from the spec: the escapes that the missing tokenizer decodes
  (section 4.3): quote, backslash, slash, \<open>b\<close>, \<open>f\<close>, \<open>n\<close>, \<open>r\<close>, \<open>t\<close> and \<open>uXXXX\<close>.
  The argument is the text after the backslash; anything else is malformed.
\<close>

definition scan_escape :: "string \<Rightarrow> (string \<times> nat) option" where
  "scan_escape cs =
     (case cs of
        [] \<Rightarrow> None
      | e # r \<Rightarrow>
          if e = CHR 0x22 \<or> e = CHR 0x5C \<or> e = CHR ''/'' then Some ([e], 1)
          else if e = CHR ''b'' then Some ([CHR 0x08], 1)
          else if e = CHR ''f'' then Some ([CHR 0x0C], 1)
          else if e = CHR ''n'' then Some ([CHR 0x0A], 1)
          else if e = CHR ''r'' then Some ([CHR 0x0D], 1)
          else if e = CHR ''t'' then Some ([CHR 0x09], 1)
          else if e = CHR ''u'' then
            (case scan_unicode r of None \<Rightarrow> None | Some (bs, n) \<Rightarrow> Some (bs, Suc n))
          else None)"

text \<open>
  Modelled from the spec: the string scanner of the missing tokenizer. The argument
  is the text after the opening quote; the result is the decoded content and the
  number of characters read, the closing quote included. An unterminated string and
  a malformed escape are \<open>JSON_PARSE_BAD_STRING\<close> (section 4.3).
\<close>

fun scan_string :: "string \<Rightarrow> JsonParseStatus + (string \<times> nat)" where
  "scan_string [] = Inl JSON_PARSE_BAD_STRING"
| "scan_string (c # cs) =
     (if c = CHR 0x22 then Inr ([], 1)
      else if c = CHR 0x5C then
        (case scan_escape cs of
           None \<Rightarrow> Inl JSON_PARSE_BAD_STRING
         | Some (bs, n) \<Rightarrow>
             (case scan_string (drop n cs) of
                Inl err \<Rightarrow> Inl err
              | Inr (s, m) \<Rightarrow> Inr (bs @ s, Suc (n + m))))
      else
        (case scan_string cs of
           Inl err \<Rightarrow> Inl err
         | Inr (s, m) \<Rightarrow> Inr (c # s, Suc m)))"

subsection \<open>Numbers and identifiers\<close>

text \<open>
  Modelled from the spec: the number scanner of the missing tokenizer
  (section 4.3): "optional \<open>-\<close>, integer part, optional fractional part, optional
  exponent -- fails on malformed forms". The argument is the text from the first
  character of the literal; the result is the decimal value and the length of the
  literal. An integer part that starts with \<open>0\<close> is that digit alone, and the literal
  must be followed by a delimiter or the end of the text, so that \<open>01\<close> and \<open>1.2.3\<close>
  are bad numbers (section 8). The overflow and underflow kinds are for literals
  whose magnitude is beyond a "parser-defined threshold": \<open>rng\<close> is that threshold,
  the least and the greatest power of ten allowed for the leading digit of a
  literal that is not zero.
\<close>

definition scan_number :: "int \<times> int \<Rightarrow> string \<Rightarrow> JsonParseStatus + (decimal \<times> nat)" where
  "scan_number rng cs =
     (let neg = (take 1 cs = ''-'');
          s1 = (if neg then drop 1 cs else cs);
          ip = (if take 1 s1 = ''0'' then ''0'' else takeWhile is_digit s1);
          s2 = drop (length ip) s1;
          dot = (take 1 s2 = ''.'');
          fp = (if dot then takeWhile is_digit (drop 1 s2) else []);
          s3 = (if dot then drop (Suc (length fp)) s2 else s2);
          ex = (take 1 s3 = ''e'' \<or> take 1 s3 = ''E'');
          sg = (if ex then take 1 (drop 1 s3) else []);
          s4 = (if ex then drop (if sg = ''+'' \<or> sg = ''-'' then 2 else 1) s3 else s3);
          ep = (if ex then takeWhile is_digit s4 else []);
          s5 = drop (length ep) s4;
          m = int (decimal_value (ip @ fp));
          e = (if sg = ''-'' then - int (decimal_value ep) else int (decimal_value ep))
                - int (length fp);
          sig = dropWhile (\<lambda>c. c = CHR ''0'') (ip @ fp);
          mag = e + int (length sig) - 1
      in if ip = [] \<or> (dot \<and> fp = []) \<or> (ex \<and> ep = []) then Inl JSON_PARSE_BAD_NUMBER
         else if (case s5 of [] \<Rightarrow> False | d # _ \<Rightarrow> \<not> is_delim d) then Inl JSON_PARSE_BAD_NUMBER
         else if sig \<noteq> [] \<and> snd rng < mag then Inl JSON_PARSE_OVERFLOW
         else if sig \<noteq> [] \<and> mag < fst rng then Inl JSON_PARSE_UNDERFLOW
         else Inr ((if neg then - m else m, e), length cs - length s5))"

text \<open>
  Modelled from the spec: the identifier scanner of the missing tokenizer
  (section 4.3): the literals \<open>true\<close>, \<open>false\<close>, \<open>null\<close>, and "anything starting with
  a letter that is not" one of them is an unknown identifier. The argument is the
  text from the first letter; the result is the token and the length of the word.
\<close>

definition scan_identifier :: "string \<Rightarrow> JsonParseStatus + (token \<times> nat)" where
  "scan_identifier cs =
     (let w = takeWhile is_letter cs
      in if w = ''true'' then Inr (TTrue, 4)
         else if w = ''false'' then Inr (TFalse, 5)
         else if w = ''null'' then Inr (TNull, 4)
         else Inl JSON_PARSE_UNKNOWN_IDENTIFIER)"

subsection \<open>The tokenizer\<close>

text \<open>
  Modelled from the spec: the "dispatch-on-first-char" of the missing parser
  (section 4.3). \<open>scan rng c cs\<close> reads the token that starts with \<open>c\<close> and is followed
  by \<open>cs\<close>; the result is the token and the number of characters of \<open>cs\<close> that belong
  to it. A character that starts no token is \<open>JSON_PARSE_UNEXPECTED_CHARACTER\<close>.
\<close>

definition scan :: "int \<times> int \<Rightarrow> char \<Rightarrow> string \<Rightarrow> JsonParseStatus + (token \<times> nat)" where
  "scan rng c cs =
     (if c = CHR ''{'' then Inr (LBrace, 0)
      else if c = CHR ''}'' then Inr (RBrace, 0)
      else if c = CHR ''['' then Inr (LBracket, 0)
      else if c = CHR '']'' then Inr (RBracket, 0)
      else if c = CHR '','' then Inr (Comma, 0)
      else if c = CHR '':'' then Inr (Colon, 0)
      else if c = CHR 0x22 then
        (case scan_string cs of Inl err \<Rightarrow> Inl err | Inr (s, n) \<Rightarrow> Inr (TString s, n))
      else if c = CHR ''-'' \<or> is_digit c then
        (case scan_number rng (c # cs) of
           Inl err \<Rightarrow> Inl err
         | Inr (d, n) \<Rightarrow> Inr (TNumber d, n - 1))
      else if is_letter c then
        (case scan_identifier (c # cs) of Inl err \<Rightarrow> Inl err | Inr (t, n) \<Rightarrow> Inr (t, n - 1))
      else Inl JSON_PARSE_UNEXPECTED_CHARACTER)"

text \<open>
  Modelled from the spec: the tokenizer of the missing parser, which skips
  whitespace between tokens (section 4.3). \<open>tokenize rng i txt\<close> reads the text \<open>txt\<close>
  that starts at offset \<open>i\<close> of the buffer; the end of the list stands for the NUL
  terminator (section 6). The result is the tokens up to the end of the text or the
  first one that cannot be read, each with the offset of its first character, and
  how the reading ended: \<open>JSON_PARSE_OK\<close> and the offset of the end of the text, or
  the error kind and the offset of the token that could not be read.
\<close>

fun tokenize :: "int \<times> int \<Rightarrow> nat \<Rightarrow> string \<Rightarrow> (nat \<times> token) list \<times> (JsonParseStatus \<times> nat)" where
  "tokenize rng i [] = ([], (JSON_PARSE_OK, i))"
| "tokenize rng i (c # cs) =
     (if is_space c then tokenize rng (Suc i) cs
      else
        (case scan rng c cs of
           Inl err \<Rightarrow> ([], (err, i))
         | Inr (t, n) \<Rightarrow>
             (case tokenize rng (Suc (i + n)) (drop n cs) of
                (ts, fin) \<Rightarrow> ((i, t) # ts, fin))))"

subsection \<open>The builder\<close>

text \<open>
  Modelled from the spec: an enclosing array or object of the missing builder,
  waiting for the value being parsed: the elements linked so far, or the pairs linked
  so far and the key of the value to come.
\<close>

datatype frame =
    InArray "Value list"
  | InObject "(string \<times> Value) list" string

text \<open>
  Modelled from the spec: the states of the missing builder, a refinement of the
  state machine of section 4.3 by what may come next: a value; a value or \<open>]\<close> just
  after \<open>[\<close>; a key or \<open>}\<close> just after \<open>{\<close>; a key after a comma; the colon after a
  key; a comma or the closing bracket after an element or a member; and the end of
  the text after the top-level value. The list of frames is the stack of open
  arrays and objects, innermost first.
\<close>

datatype state =
    ExpectValue "frame list"
  | ArrayOpened "frame list"
  | ObjectOpened "frame list"
  | ExpectKey "(string \<times> Value) list" "frame list"
  | ExpectColon "(string \<times> Value) list" string "frame list"
  | AfterElement "Value list" "frame list"
  | AfterMember "(string \<times> Value) list" "frame list"
  | Finished Value

text \<open>
  Modelled from the spec: what the missing builder does with a value it has
  finished. "Elements/pairs are linked as they are parsed", and of the two policies of
  section 4.3 the model takes the tail pointer: the new cell is appended after the
  last one, so the chain is in source order at every moment.
\<close>

fun complete :: "Value \<Rightarrow> frame list \<Rightarrow> state" where
  "complete v [] = Finished v"
| "complete v (InArray es # st) = AfterElement (es @ [v]) st"
| "complete v (InObject ps k # st) = AfterMember (ps @ [(k, v)]) st"

text \<open>Modelled from the spec: the value of a token that is a value by itself.\<close>

fun scalar :: "token \<Rightarrow> Value option" where
  "scalar (TString s) = Some (String s)"
| "scalar (TNumber d) = Some (Number d)"
| "scalar TTrue = Some (Bool True)"
| "scalar TFalse = Some (Bool False)"
| "scalar TNull = Some Null"
| "scalar _ = None"

text \<open>
  Modelled from the spec: the missing builder where a value is expected. A scalar
  is a finished value, an opening bracket starts an array or an object. Anything
  else is an "unexpected character at a position where a value/key/separator was
  expected" (as \<open>}\<close> in \<open>{"a":}\<close>, section 8), except a closing bracket with nothing
  open, which is a bracket mismatch.
\<close>

definition on_value :: "frame list \<Rightarrow> token \<Rightarrow> JsonParseStatus + state" where
  "on_value st t =
     (case scalar t of
        Some v \<Rightarrow> Inr (complete v st)
      | None \<Rightarrow>
          if t = LBracket then Inr (ArrayOpened st)
          else if t = LBrace then Inr (ObjectOpened st)
          else if st = [] \<and> (t = RBracket \<or> t = RBrace) then Inl JSON_PARSE_MISMATCH_BRACKET
          else Inl JSON_PARSE_UNEXPECTED_CHARACTER)"

text \<open>Modelled from the spec: the missing builder where the key of a pair is expected.\<close>

definition on_key :: "(string \<times> Value) list \<Rightarrow> frame list \<Rightarrow> token \<Rightarrow> JsonParseStatus + state" where
  "on_key ps st t =
     (case t of
        TString k \<Rightarrow> Inr (ExpectColon ps k st)
      | _ \<Rightarrow> Inl JSON_PARSE_UNEXPECTED_CHARACTER)"

text \<open>
  Modelled from the spec: one step of the missing builder on the next token. A
  closing bracket of the other kind after an element or a member, and any token
  after the top-level value ("extra trailing content"), are bracket mismatches.
\<close>

fun step :: "state \<Rightarrow> token \<Rightarrow> JsonParseStatus + state" where
  "step (ExpectValue st) t = on_value st t"
| "step (ArrayOpened st) t =
     (if t = RBracket then Inr (complete (Array []) st) else on_value (InArray [] # st) t)"
| "step (ObjectOpened st) t =
     (if t = RBrace then Inr (complete (Object []) st) else on_key [] st t)"
| "step (ExpectKey ps st) t = on_key ps st t"
| "step (ExpectColon ps k st) t =
     (if t = Colon then Inr (ExpectValue (InObject ps k # st))
      else Inl JSON_PARSE_UNEXPECTED_CHARACTER)"
| "step (AfterElement es st) t =
     (if t = Comma then Inr (ExpectValue (InArray es # st))
      else if t = RBracket then Inr (complete (Array es) st)
      else if t = RBrace then Inl JSON_PARSE_MISMATCH_BRACKET
      else Inl JSON_PARSE_UNEXPECTED_CHARACTER)"
| "step (AfterMember ps st) t =
     (if t = Comma then Inr (ExpectKey ps st)
      else if t = RBrace then Inr (complete (Object ps) st)
      else if t = RBracket then Inl JSON_PARSE_MISMATCH_BRACKET
      else Inl JSON_PARSE_UNEXPECTED_CHARACTER)"
| "step (Finished v) t = Inl JSON_PARSE_MISMATCH_BRACKET"

text \<open>
  Modelled from the spec: the "end-of-top-level check" of the missing parser at the
  end of the text, at offset \<open>e\<close>. A finished top-level value is the success; a text
  with no value at all has the terminator where a value was expected; every other
  state has a bracket still open ("missing closing bracket").
\<close>

fun finish :: "state \<Rightarrow> nat \<Rightarrow> JsonParseStatus \<times> nat \<times> Value option" where
  "finish (Finished v) e = (JSON_PARSE_OK, e, Some v)"
| "finish (ExpectValue []) e = (JSON_PARSE_UNEXPECTED_CHARACTER, e, None)"
| "finish s e = (JSON_PARSE_MISMATCH_BRACKET, e, None)"

text \<open>
  Modelled from the spec: the loop of the missing parser over the tokens. It stops
  at the first token the builder rejects, with the error kind and the offset of that
  token; past the last token it reports how the tokenizer ended. The result is the
  status, the end position and the root value, which is present on success only.
\<close>

fun run :: "state \<Rightarrow> (nat \<times> token) list \<Rightarrow> JsonParseStatus \<times> nat \<Rightarrow> JsonParseStatus \<times> nat \<times> Value option" where
  "run s [] fin = (if fst fin = JSON_PARSE_OK then finish s (snd fin) else (fst fin, snd fin, None))"
| "run s (pt # ts) fin =
     (case step s (snd pt) of
        Inl err \<Rightarrow> (err, fst pt, None)
      | Inr s' \<Rightarrow> run s' ts fin)"

text \<open>
  Modelled from the spec: \<open>json_parse\<close>, declared in gason.h without a body, as
  "\<open>parse(buffer) -> (status, end-position, root Value)\<close>" of section 4.3. The text is
  the content of the buffer before its NUL terminator. The builder reads the tokens
  in order and looks at none after the one it stops at, so the result is that of a
  single pass over the text.
\<close>

definition json_parse :: "int \<times> int \<Rightarrow> string \<Rightarrow> JsonParseStatus \<times> nat \<times> Value option" where
  "json_parse rng str = (case tokenize rng 0 str of (ts, fin) \<Rightarrow> run (ExpectValue []) ts fin)"

subsection \<open>The grammar\<close>

text \<open>
  Modelled from the spec: the comma-separated sequences of the grammar of
  section 4.3, "\<open>{ "key": value, ... }\<close>" and "\<open>[ value, ... ]\<close>", which the missing
  parser reads: \<open>separated\<close> puts a comma between the items of a sequence.
\<close>

fun separated :: "token list list \<Rightarrow> token list" where
  "separated [] = []"
| "separated [x] = x"
| "separated (x # y # zs) = x @ Comma # separated (y # zs)"

text \<open>
  Modelled from the spec: the token sequences of the grammar of section 4.3 that the
  missing parser reads, "object \<open>{ "key": value, ... }\<close>, array \<open>[ value, ... ]\<close>",
  from left to right. \<open>layout v\<close> is the sequence of tokens that spells the tree \<open>v\<close>,
  the elements of each array and the members of each object in the order of their
  list.
\<close>

fun layout :: "Value \<Rightarrow> token list" where
  "layout Null = [TNull]"
| "layout (Bool b) = [if b then TTrue else TFalse]"
| "layout (Number d) = [TNumber d]"
| "layout (String s) = [TString s]"
| "layout (Array vs) = LBracket # separated (map layout vs) @ [RBracket]"
| "layout (Object ps) =
     LBrace # separated (map (\<lambda>p. TString (fst p) # Colon # layout (snd p)) ps) @ [RBrace]"

text \<open>
  Modelled from the spec: the tokens that spell one pair of an object in the
  grammar of section 4.3 read by the missing parser: the key, the colon, the value.
\<close>

definition pair_layout :: "string \<times> Value \<Rightarrow> token list" where
  "pair_layout p = TString (fst p) # Colon # layout (snd p)"

text \<open>
  Modelled from the spec: the items of an array or object that the missing builder
  has left behind when it expects the next one: each is followed by its comma.
\<close>

definition followed :: "token list list \<Rightarrow> token list" where
  "followed xs = concat (map (\<lambda>x. x @ [Comma]) xs)"

text \<open>
  Modelled from the spec: the tokens that the missing builder has read for the
  arrays and objects still open, outermost first: for each the opening bracket, the
  items linked so far with their commas and, in an object, the key and the colon of
  the value to come.
\<close>

fun opened :: "frame list \<Rightarrow> token list" where
  "opened [] = []"
| "opened (InArray es # st) = opened st @ LBracket # followed (map layout es)"
| "opened (InObject ps k # st) =
     opened st @ LBrace # followed (map pair_layout ps) @ [TString k, Colon]"

text \<open>
  Modelled from the spec: the tokens of the grammar of section 4.3 that the missing
  builder has read when it is in a given state, from the first token of the text to
  the last one read.
\<close>

fun read_so_far :: "state \<Rightarrow> token list" where
  "read_so_far (ExpectValue st) = opened st"
| "read_so_far (ArrayOpened st) = opened st @ [LBracket]"
| "read_so_far (ObjectOpened st) = opened st @ [LBrace]"
| "read_so_far (ExpectKey ps st) = opened st @ LBrace # followed (map pair_layout ps)"
| "read_so_far (ExpectColon ps k st) = opened st @ LBrace # followed (map pair_layout ps) @ [TString k]"
| "read_so_far (AfterElement es st) = opened st @ LBracket # separated (map layout es)"
| "read_so_far (AfterMember ps st) = opened st @ LBrace # separated (map pair_layout ps)"
| "read_so_far (Finished v) = layout v"

text \<open>
  Modelled from the spec: the states the missing builder can be in. After an
  element or a member, at least one has been linked.
\<close>

fun reachable :: "state \<Rightarrow> bool" where
  "reachable (AfterElement es st) \<longleftrightarrow> es \<noteq> []"
| "reachable (AfterMember ps st) \<longleftrightarrow> ps \<noteq> []"
| "reachable s \<longleftrightarrow> True"

section \<open>The allocator, modelled from the specification\<close>

text \<open>
  The header declares \<open>allocate\<close> and the destructor of \<open>JsonAllocator\<close> and gives
  neither a body. The definitions of this section are written from sections 3, 4.1
  and 7 of the specification.
\<close>

text \<open>
  Modelled from the spec: the memory that the missing body of \<open>allocate\<close> works
  in: the headers of the zones acquired from the host and not released, by the
  address of the zone, and the size in bytes of the block of each ("a linked list of
  fixed-capacity memory blocks", section 3).
\<close>

record Memory =
  zone_at :: "pointer \<rightharpoonup> Zone"
  zone_size :: "pointer \<rightharpoonup> nat"

text \<open>
  Modelled from the spec: the size of a zone header, which the missing body of
  \<open>allocate\<close> leaves free at the start of a block: the two pointers of
  \<open>struct Zone\<close>, eight bytes each.
\<close>

definition sizeof_Zone :: nat where
  "sizeof_Zone = 16"

text \<open>
  Modelled from the spec: the first address from \<open>p\<close> on that is "aligned to
  \<open>alignment\<close>" (section 4.1), for the missing body of \<open>allocate\<close>. An alignment
  of 0 asks for nothing.
\<close>

definition align_up :: "nat \<Rightarrow> nat \<Rightarrow> nat" where
  "align_up p a = (if a = 0 then p else ((p + a - 1) div a) * a)"

text \<open>
  Modelled from the spec: the size of the zone that the missing body of \<open>allocate\<close>
  acquires for a request: "zone size \<open>\<ge>\<close> a fixed default capacity, grown if the
  single request exceeds it" (section 4.1). \<open>cap\<close> is the default capacity; a zone
  that serves the request holds the header, the padding and the bytes asked for.
\<close>

definition zone_request :: "nat \<Rightarrow> nat \<Rightarrow> nat \<Rightarrow> nat" where
  "zone_request cap n align = max cap (sizeof_Zone + align + n)"

text \<open>
  Modelled from the spec: the failure of the missing body of \<open>allocate\<close>. "If the
  host environment cannot grow memory, that is a fatal abort, not a recoverable parse
  error" (section 7).
\<close>

datatype fatal = HostExhausted

text \<open>
  Modelled from the spec: \<open>allocate\<close>, declared in gason.h without a body, after
  sections 3 and 4.1. The current zone is the one at \<open>head\<close>, and the \<open>end\<close> of its
  header is its free pointer ("each zone tracks its current free-pointer's implicit
  end"). A request that fits in the current zone advances that pointer. "On
  exhaustion it acquires a new zone sized to satisfy the request" and pushes it in
  front of the chain ("once a zone is full, a new zone is pushed"); an allocator with
  no zone is exhausted. \<open>place m k\<close> is the address at which the host puts a new
  block of \<open>k\<close> bytes in the memory \<open>m\<close>, the null pointer when it cannot. The result
  is the address handed out, the allocator and the memory after the call.
\<close>

definition allocate ::
  "(Memory \<Rightarrow> nat \<Rightarrow> pointer) \<Rightarrow> nat \<Rightarrow> nat \<Rightarrow> nat \<Rightarrow> JsonAllocator \<times> Memory \<Rightarrow>
     fatal + (pointer \<times> JsonAllocator \<times> Memory)" where
  "allocate place cap n align s =
     (let a = fst s; m = snd s;
          room =
            (if head a = nullptr then None
             else case (zone_at m (head a), zone_size m (head a)) of
                    (Some z, Some k) \<Rightarrow>
                      (let p = align_up (unat (zone_end z)) align
                       in if p + n \<le> unat (head a) + k then Some (z, p) else None)
                  | _ \<Rightarrow> None)
      in case room of
           Some (z, p) \<Rightarrow>
             Inr (of_nat p, a,
                  m\<lparr>zone_at := (zone_at m)(head a \<mapsto> z\<lparr>zone_end := of_nat (p + n)\<rparr>)\<rparr>)
         | None \<Rightarrow>
             (let k = zone_request cap n align; b = place m k
              in if b = nullptr then Inl HostExhausted
                 else
                   (let p = align_up (unat b + sizeof_Zone) align
                    in Inr (of_nat p, a\<lparr>head := b\<rparr>,
                            m\<lparr>zone_at := (zone_at m)
                                  (b \<mapsto> \<lparr>zone_next = head a, zone_end = of_nat (p + n)\<rparr>),
                              zone_size := (zone_size m)(b \<mapsto> k)\<rparr>))))"

section \<open>Properties of the packed value representation\<close>

subsection \<open>Bits of the constants and of a tagged word\<close>

lemma nan_mask_eq: "JSON_VALUE_NAN_MASK = push_bit 51 (mask 12)"
  by (simp add: JSON_VALUE_NAN_MASK_def mask_eq_exp_minus_1 push_bit_eq_mult)

lemma sint_nan_mask: "sint JSON_VALUE_NAN_MASK = 0x7FF8000000000000"
  by (simp add: JSON_VALUE_NAN_MASK_def)

lemma sint_eq_uint_64: "\<not> bit w 63 \<Longrightarrow> sint (w :: 64 word) = uint w"
  by (rule bit_eqI) (auto simp add: bit_sint_iff bit_uint_iff dest: bit_imp_le_length)

lemma sint_neg_64: "bit w 63 \<Longrightarrow> sint (w :: 64 word) < 0"
  using bit_last_iff [of w] by simp

lemma le_payload_mask_iff: "p \<le> JSON_VALUE_PAYLOAD_MASK \<longleftrightarrow> p AND mask 47 = p"
  by (auto simp add: mask_eq_iff JSON_VALUE_PAYLOAD_MASK_def word_le_def)

lemma le_payload_mask_bit:
  assumes "p \<le> JSON_VALUE_PAYLOAD_MASK" and "bit p n"
  shows "n < 47"
proof -
  have "bit (p AND mask 47) n"
    using assms by (simp add: le_payload_mask_iff)
  then show ?thesis
    by (simp add: bit_and_iff bit_mask_iff)
qed

lemma tag_bit:
  assumes "t \<le> 15" and "bit (t :: 32 word) n"
  shows "n < 4"
proof -
  have "t AND mask 4 = t"
    using assms(1) by (simp add: mask_eq_iff word_le_def)
  then have "bit (t AND mask 4) n"
    using assms(2) by simp
  then show ?thesis
    by (simp add: bit_and_iff bit_mask_iff)
qed

lemma tag_sint:
  assumes "t \<le> 15"
  shows "sint (t :: 32 word) = uint t" and "sint t \<le> 15"
proof -
  have "\<not> bit t 31"
    using tag_bit [OF assms, of 31] by auto
  then show "sint t = uint t"
    by - (rule bit_eqI, auto simp add: bit_sint_iff bit_uint_iff dest: bit_imp_le_length)
  then show "sint t \<le> 15"
    using assms by (simp add: word_le_def)
qed

lemma isDouble_iff: "isDouble v \<longleftrightarrow> bit (data_i v) 63 \<or> data_i v \<le> JSON_VALUE_NAN_MASK"
proof (cases "bit (data_i v) 63")
  case True
  then show ?thesis
    using sint_neg_64 [of "data_i v"] by (simp add: isDouble_def sint_nan_mask)
next
  case False
  then show ?thesis
    by (simp add: isDouble_def sint_nan_mask sint_eq_uint_64 word_le_def JSON_VALUE_NAN_MASK_def)
qed

lemma JsonValue_tagged_Inr:
  "JsonValue_tagged t p = Inr v \<longleftrightarrow>
     sint t \<le> 15 \<and> p \<le> JSON_VALUE_PAYLOAD_MASK \<and>
     v = \<lparr>data_i = JSON_VALUE_NAN_MASK OR push_bit 47 (ucast t) OR p\<rparr>"
  by (auto simp add: JsonValue_tagged_def JSON_VALUE_TAG_MASK_def JSON_VALUE_TAG_SHIFT_def)

lemma JsonValue_tagged_ex:
  assumes "t \<le> 15" and "p \<le> JSON_VALUE_PAYLOAD_MASK"
  shows "\<exists>v. JsonValue_tagged t p = Inr v"
  using assms tag_sint(2) [OF assms(1)] by (simp add: JsonValue_tagged_Inr)

lemma bit_tagged:
  assumes "JsonValue_tagged t p = Inr v"
  shows "bit (data_i v) n \<longleftrightarrow>
     (n < 47 \<and> bit p n) \<or> (47 \<le> n \<and> n < 64 \<and> bit t (n - 47)) \<or> (51 \<le> n \<and> n < 63)"
proof -
  from assms have p: "p \<le> JSON_VALUE_PAYLOAD_MASK"
    and v: "data_i v = JSON_VALUE_NAN_MASK OR push_bit 47 (ucast t) OR p"
    by (simp_all add: JsonValue_tagged_Inr)
  show ?thesis
    using le_payload_mask_bit [OF p, of n]
    by (auto simp add: v nan_mask_eq bit_or_iff bit_push_bit_iff bit_mask_iff bit_ucast_iff)
qed

lemma tagged_payload:
  assumes "JsonValue_tagged t p = Inr v"
  shows "data_i v AND JSON_VALUE_PAYLOAD_MASK = p"
proof -
  from assms have p: "p \<le> JSON_VALUE_PAYLOAD_MASK"
    by (simp add: JsonValue_tagged_Inr)
  have m: "JSON_VALUE_PAYLOAD_MASK = mask 47"
    by (simp add: JSON_VALUE_PAYLOAD_MASK_def mask_eq_exp_minus_1)
  show ?thesis
    unfolding m
    by (rule bit_eqI) (use le_payload_mask_bit [OF p] in
      \<open>auto simp add: bit_and_iff bit_mask_iff bit_tagged [OF assms]\<close>)
qed

lemma tagged_tag_bits:
  assumes "t \<le> 15" and "JsonValue_tagged t p = Inr v"
  shows "drop_bit 47 (data_i v) AND 0xF = ucast t"
proof -
  have m: "(0xF :: 64 word) = mask 4"
    by (simp add: mask_eq_exp_minus_1)
  show ?thesis
    unfolding m
    by (rule bit_eqI)
      (auto simp add: bit_and_iff bit_mask_iff bit_drop_bit_eq bit_ucast_iff
        bit_tagged [OF assms(2)] dest: tag_bit [OF assms(1)])
qed

lemma tagged_sign_clear:
  assumes "t \<le> 15" and "JsonValue_tagged t p = Inr v"
  shows "\<not> bit (data_i v) 63"
  using tag_bit [OF assms(1), of 16] by (auto simp add: bit_tagged [OF assms(2)])

lemma tagged_ge_nan:
  assumes "\<not> bit (data_i v) 63" and "JsonValue_tagged t p = Inr v"
  shows "JSON_VALUE_NAN_MASK \<le> data_i v"
  using assms(2) by (auto simp add: JsonValue_tagged_Inr word_bw_assocs le_word_or2)

lemma tagged_eq_nan_iff:
  assumes "t \<le> 15" and "JsonValue_tagged t p = Inr v"
  shows "data_i v = JSON_VALUE_NAN_MASK \<longleftrightarrow> t = 0 \<and> p = 0"
proof
  assume e: "data_i v = JSON_VALUE_NAN_MASK"
  have b: "bit (data_i v) n \<longleftrightarrow> 51 \<le> n \<and> n < 63" for n
    by (auto simp add: e nan_mask_eq bit_push_bit_iff bit_mask_iff)
  have "\<not> bit p n" for n
    using b [of n] le_payload_mask_bit [of p n] assms(2)
    by (auto simp add: bit_tagged [OF assms(2)] JsonValue_tagged_Inr)
  then have "p = 0"
    by (simp add: bit_eq_iff)
  moreover have "\<not> bit t n" for n
    using b [of "n + 47"] tag_bit [OF assms(1), of n]
    by (auto simp add: bit_tagged [OF assms(2)])
  then have "t = 0"
    by (simp add: bit_eq_iff)
  ultimately show "t = 0 \<and> p = 0" by simp
next
  assume "t = 0 \<and> p = 0"
  with assms(2) show "data_i v = JSON_VALUE_NAN_MASK"
    by (auto simp add: JsonValue_tagged_Inr)
qed

lemma tagged_isDouble_iff:
  assumes "t \<le> 15" and "JsonValue_tagged t p = Inr v"
  shows "isDouble v \<longleftrightarrow> t = 0 \<and> p = 0"
  using tagged_sign_clear [OF assms] tagged_ge_nan [OF tagged_sign_clear [OF assms] assms(2)]
    tagged_eq_nan_iff [OF assms]
  by (auto simp add: isDouble_iff)

lemma ucast_tag_id: "ucast (ucast (t :: 32 word) :: 64 word) = t"
  by (rule bit_eqI) (auto simp add: bit_ucast_iff dest: bit_imp_le_length)

lemma tagged_getTag:
  assumes "t \<le> 15" and "JsonValue_tagged t p = Inr v"
  shows "getTag v = t"
  using tagged_isDouble_iff [OF assms] tagged_tag_bits [OF assms]
  by (auto simp add: getTag_def JSON_TAG_NUMBER_def JSON_VALUE_TAG_SHIFT_def
      JSON_VALUE_TAG_MASK_def ucast_tag_id)

lemma above_nan_exponent:
  assumes "\<not> bit w 63" and "JSON_VALUE_NAN_MASK < w"
  shows "drop_bit 51 w = mask 12"
proof -
  have lo: "0x7FF8000000000000 < uint w"
    using assms(2) by (simp add: word_less_def JSON_VALUE_NAN_MASK_def)
  have "uint w = sint w"
    using assms(1) by (simp add: sint_eq_uint_64)
  also have "sint w < 2 ^ 63"
    using sint_less [of w] by simp
  finally have hi: "uint w < 0x8000000000000000"
    by simp
  have "uint w div 2 ^ 51 = 4095"
    using lo hi by simp
  then have "drop_bit 51 (uint w) = 4095"
    by (simp only: drop_bit_eq_div)
  then have "nat (drop_bit 51 (uint w)) = 4095"
    by simp
  then have "drop_bit 51 (unat w) = 4095"
    by (simp only: unat_eq_nat_uint drop_bit_nat_eq)
  then have "unat (drop_bit 51 w) = unat (mask 12 :: 64 word)"
    by (simp add: unat_drop_bit_eq mask_eq_exp_minus_1)
  then show ?thesis
    by (simp only: word_unat_eq_iff)
qed

lemma above_nan_bits:
  assumes "\<not> bit w 63" and "JSON_VALUE_NAN_MASK < w" and "51 \<le> n" and "n < 63"
  shows "bit w n"
proof -
  have "bit (drop_bit 51 w) (n - 51)"
    using assms(3,4) by (auto simp add: above_nan_exponent [OF assms(1,2)] bit_mask_iff)
  then show ?thesis
    using assms(3) by (simp add: bit_drop_bit_eq)
qed

lemma not_isDouble_isnan:
  assumes "\<not> isDouble v"
  shows "double_isnan (data_f v)"
proof -
  from assms have s: "\<not> bit (data_i v) 63" and g: "JSON_VALUE_NAN_MASK < data_i v"
    by (simp_all add: isDouble_iff not_le)
  note b = above_nan_bits [OF s g]
  have e: "(0x7FF0000000000000 :: 64 word) = push_bit 52 (mask 11)"
    by (simp add: mask_eq_exp_minus_1 push_bit_eq_mult)
  have f: "(0x000FFFFFFFFFFFFF :: 64 word) = mask 52"
    by (simp add: mask_eq_exp_minus_1)
  have "data_i v AND push_bit 52 (mask 11) = push_bit 52 (mask 11)"
    by (rule bit_eqI) (use b in \<open>auto simp add: bit_and_iff bit_push_bit_iff bit_mask_iff\<close>)
  moreover have "bit (data_i v AND mask 52) 51"
    using b [of 51] by (simp add: bit_and_iff bit_mask_iff)
  then have "data_i v AND mask 52 \<noteq> 0"
    by auto
  ultimately show ?thesis
    by (simp add: double_isnan_def data_f_def e f)
qed

lemma getTag_not_number_not_double: "getTag v \<noteq> JSON_TAG_NUMBER \<Longrightarrow> \<not> isDouble v"
  by (auto simp add: getTag_def)

lemma tags_distinct:
  "JSON_TAG_BOOL \<noteq> JSON_TAG_NUMBER" "JSON_TAG_STRING \<noteq> JSON_TAG_NUMBER"
  "JSON_TAG_ARRAY \<noteq> JSON_TAG_NUMBER" "JSON_TAG_OBJECT \<noteq> JSON_TAG_NUMBER"
  "JSON_TAG_NULL \<noteq> JSON_TAG_NUMBER"
  by (simp_all add: JSON_TAG_NUMBER_def JSON_TAG_STRING_def JSON_TAG_BOOL_def
      JSON_TAG_ARRAY_def JSON_TAG_OBJECT_def JSON_TAG_NULL_def)

lemma getPayload_tagged:
  "getTag v = t \<Longrightarrow> t \<noteq> JSON_TAG_NUMBER \<Longrightarrow>
     getPayload v = Inr (data_i v AND JSON_VALUE_PAYLOAD_MASK)"
  using getTag_not_number_not_double [of v] by (simp add: getPayload_def)

subsection \<open>Number detection\<close>

text \<open>
  Claim C1. A double that is not a NaN, stored by the constructor \<open>JsonValue(double)\<close>,
  has tag \<open>JSON_TAG_NUMBER\<close>, and \<open>toNumber\<close> passes its assertion and returns that
  same double. In the other direction, a value that the tagged constructor builds for
  a tag of the enumeration (a code of at most \<open>0xF\<close>) other than \<open>JSON_TAG_NUMBER\<close>,
  one of the reserved quiet-NaN patterns, never has tag \<open>JSON_TAG_NUMBER\<close>.
\<close>

theorem number_detection:
  "(\<not> double_isnan x \<longrightarrow>
      getTag (JsonValue_double x) = JSON_TAG_NUMBER \<and> toNumber (JsonValue_double x) = Inr x) \<and>
   (tag \<noteq> JSON_TAG_NUMBER \<and> tag \<le> 0xF \<and> JsonValue_tagged tag p = Inr v \<longrightarrow>
      getTag v \<noteq> JSON_TAG_NUMBER)"
proof (intro conjI impI)
  assume n: "\<not> double_isnan x"
  have d: "data_f (JsonValue_double x) = x"
    by (simp add: data_f_def JsonValue_double_def)
  have "isDouble (JsonValue_double x)"
    using n not_isDouble_isnan [of "JsonValue_double x"] by (auto simp add: d)
  then show t: "getTag (JsonValue_double x) = JSON_TAG_NUMBER"
    by (simp add: getTag_def)
  show "toNumber (JsonValue_double x) = Inr x"
    by (simp add: toNumber_def t d)
next
  assume "tag \<noteq> JSON_TAG_NUMBER \<and> tag \<le> 0xF \<and> JsonValue_tagged tag p = Inr v"
  then show "getTag v \<noteq> JSON_TAG_NUMBER"
    using tagged_getTag [of tag p v] by simp
qed

theorem number_detection_witness:
  "\<not> double_isnan (Double 0x3FF8000000000000) \<and>
   getTag (JsonValue_double (Double 0x3FF8000000000000)) = JSON_TAG_NUMBER \<and>
   toNumber (JsonValue_double (Double 0x3FF8000000000000)) = Inr (Double 0x3FF8000000000000) \<and>
   JSON_TAG_STRING \<noteq> JSON_TAG_NUMBER \<and> JSON_TAG_STRING \<le> 0xF \<and>
   JsonValue_tagged JSON_TAG_STRING 0x1000 = Inr \<lparr>data_i = 0x7FF8800000001000\<rparr> \<and>
   getTag \<lparr>data_i = 0x7FF8800000001000\<rparr> \<noteq> JSON_TAG_NUMBER"
proof -
  have a: "\<not> double_isnan (Double 0x3FF8000000000000)"
    by (simp add: double_isnan_def)
  have b: "JSON_TAG_STRING \<noteq> JSON_TAG_NUMBER" "JSON_TAG_STRING \<le> 0xF"
    by (simp_all add: JSON_TAG_STRING_def JSON_TAG_NUMBER_def)
  have c: "JsonValue_tagged JSON_TAG_STRING 0x1000 = Inr \<lparr>data_i = 0x7FF8800000001000\<rparr>"
    by (simp add: JsonValue_tagged_def JSON_TAG_STRING_def JSON_VALUE_TAG_MASK_def
        JSON_VALUE_PAYLOAD_MASK_def JSON_VALUE_NAN_MASK_def JSON_VALUE_TAG_SHIFT_def)
  show ?thesis
    using a b c
      number_detection [of "Double 0x3FF8000000000000" JSON_TAG_STRING "0x1000"
        "\<lparr>data_i = 0x7FF8800000001000\<rparr>"]
    by simp
qed

subsection \<open>Round trip of the tagged encoding\<close>

text \<open>
  Claim C2. For each of the tags \<open>JSON_TAG_STRING\<close>, \<open>JSON_TAG_BOOL\<close>,
  \<open>JSON_TAG_ARRAY\<close>, \<open>JSON_TAG_OBJECT\<close>, \<open>JSON_TAG_NULL\<close> and each pointer of at most
  47 bits, the tagged constructor passes its assertions, \<open>getTag\<close> of the value it
  builds is the tag, and \<open>getPayload\<close> passes its assertion and returns the pointer.
\<close>

theorem tagged_round_trip:
  assumes "tag \<in> {JSON_TAG_STRING, JSON_TAG_BOOL, JSON_TAG_ARRAY, JSON_TAG_OBJECT, JSON_TAG_NULL}"
    and "p \<le> 0x00007FFFFFFFFFFF"
  shows "\<exists>v. JsonValue_tagged tag p = Inr v \<and> getTag v = tag \<and> getPayload v = Inr p"
proof -
  from assms(1) have t: "tag \<le> 15" "tag \<noteq> 0"
    by (auto simp add: JSON_TAG_STRING_def JSON_TAG_BOOL_def JSON_TAG_ARRAY_def
        JSON_TAG_OBJECT_def JSON_TAG_NULL_def)
  from assms(2) have p: "p \<le> JSON_VALUE_PAYLOAD_MASK"
    by (simp add: JSON_VALUE_PAYLOAD_MASK_def)
  obtain v where v: "JsonValue_tagged tag p = Inr v"
    using JsonValue_tagged_ex [OF t(1) p] by blast
  have "\<not> isDouble v"
    using t by (simp add: tagged_isDouble_iff [OF t(1) v])
  then have "getPayload v = Inr p"
    by (simp add: getPayload_def tagged_payload [OF v])
  then show ?thesis
    using v tagged_getTag [OF t(1) v] by simp
qed

theorem tagged_round_trip_witness:
  "JSON_TAG_ARRAY \<in> {JSON_TAG_STRING, JSON_TAG_BOOL, JSON_TAG_ARRAY, JSON_TAG_OBJECT, JSON_TAG_NULL} \<and>
   (0x00007FFFFFFFFFF8 :: 64 word) \<le> 0x00007FFFFFFFFFFF \<and>
   (\<exists>v. JsonValue_tagged JSON_TAG_ARRAY 0x00007FFFFFFFFFF8 = Inr v \<and>
        getTag v = JSON_TAG_ARRAY \<and> getPayload v = Inr 0x00007FFFFFFFFFF8)"
proof -
  have a: "JSON_TAG_ARRAY \<in> {JSON_TAG_STRING, JSON_TAG_BOOL, JSON_TAG_ARRAY, JSON_TAG_OBJECT, JSON_TAG_NULL}"
    by simp
  have b: "(0x00007FFFFFFFFFF8 :: 64 word) \<le> 0x00007FFFFFFFFFFF"
    by simp
  show ?thesis
    using a b tagged_round_trip [OF a b] by simp
qed

subsection \<open>The parse status\<close>

text \<open>
  Claim C3, as amended. A status is one of the eight enumerators of
  \<open>JsonParseStatus\<close>: the success kind and seven error kinds (not eight). The seven
  are pairwise different and different from \<open>JSON_PARSE_OK\<close>, every status other
  than \<open>JSON_PARSE_OK\<close> is exactly one of them, and the integer values of the
  enumerators are below 8 and pairwise different.
\<close>

theorem status_taxonomy_closed:
  "(s = JSON_PARSE_OK \<or> s = JSON_PARSE_BAD_NUMBER \<or> s = JSON_PARSE_BAD_STRING \<or>
    s = JSON_PARSE_UNKNOWN_IDENTIFIER \<or> s = JSON_PARSE_OVERFLOW \<or> s = JSON_PARSE_UNDERFLOW \<or>
    s = JSON_PARSE_MISMATCH_BRACKET \<or> s = JSON_PARSE_UNEXPECTED_CHARACTER) \<and>
   length json_parse_errors = 7 \<and> distinct (JSON_PARSE_OK # json_parse_errors) \<and>
   (s \<noteq> JSON_PARSE_OK \<longrightarrow> length (filter ((=) s) json_parse_errors) = 1) \<and>
   status_code s < 8 \<and> (status_code s = status_code s' \<longrightarrow> s = s')"
proof -
  have "status_code s = status_code s' \<longrightarrow> s = s'"
    by (cases s; cases s') simp_all
  moreover have "s \<noteq> JSON_PARSE_OK \<longrightarrow> length (filter ((=) s) json_parse_errors) = 1"
    by (cases s) (simp_all add: json_parse_errors_def)
  moreover have "status_code s < 8"
    by (cases s) simp_all
  moreover have "length json_parse_errors = 7 \<and> distinct (JSON_PARSE_OK # json_parse_errors)"
    by (simp add: json_parse_errors_def)
  ultimately show ?thesis
    by (cases s) simp_all
qed

theorem status_taxonomy_closed_witness:
  "JSON_PARSE_BAD_STRING \<noteq> JSON_PARSE_OK \<and>
   length (filter ((=) JSON_PARSE_BAD_STRING) json_parse_errors) = 1 \<and>
   status_code JSON_PARSE_BAD_STRING = status_code JSON_PARSE_BAD_STRING"
  using status_taxonomy_closed [of JSON_PARSE_BAD_STRING JSON_PARSE_BAD_STRING] by simp

text \<open>
  The claim as stated counts eight error kinds: the enumerators other than
  \<open>JSON_PARSE_OK\<close> are those of \<open>json_parse_errors\<close>, and there are not eight of them.
\<close>

theorem status_taxonomy_counterexample:
  "set json_parse_errors = UNIV - {JSON_PARSE_OK} \<and> distinct json_parse_errors \<and>
   length json_parse_errors \<noteq> 8"
proof -
  have "s \<in> set json_parse_errors \<longleftrightarrow> s \<noteq> JSON_PARSE_OK" for s
    by (cases s) (simp_all add: json_parse_errors_def)
  then have "set json_parse_errors = UNIV - {JSON_PARSE_OK}"
    by auto
  then show ?thesis
    by (simp add: json_parse_errors_def)
qed

subsection \<open>Guarded accessors\<close>

text \<open>
  Claim C4. Each of \<open>toNumber\<close>, \<open>toBool\<close>, \<open>toString\<close>, \<open>toElement\<close>, \<open>toPair\<close>
  asserts that \<open>getTag\<close> is its own tag. When the tag matches, every assertion on
  the way passes (also the one inside \<open>getPayload\<close>) and the accessor returns what
  is stored: the double for \<open>toNumber\<close>, the payload bits for the others (as a
  truth value for \<open>toBool\<close>). When the tag differs, the assertion fails.
\<close>

theorem accessors_guarded:
  "(getTag v = JSON_TAG_NUMBER \<longrightarrow> toNumber v = Inr (data_f v)) \<and>
   (getTag v \<noteq> JSON_TAG_NUMBER \<longrightarrow> toNumber v = Inl AssertionFailed) \<and>
   (getTag v = JSON_TAG_BOOL \<longrightarrow> toBool v = Inr (data_i v AND JSON_VALUE_PAYLOAD_MASK \<noteq> 0)) \<and>
   (getTag v \<noteq> JSON_TAG_BOOL \<longrightarrow> toBool v = Inl AssertionFailed) \<and>
   (getTag v = JSON_TAG_STRING \<longrightarrow> toString v = Inr (data_i v AND JSON_VALUE_PAYLOAD_MASK)) \<and>
   (getTag v \<noteq> JSON_TAG_STRING \<longrightarrow> toString v = Inl AssertionFailed) \<and>
   (getTag v = JSON_TAG_ARRAY \<longrightarrow> toElement v = Inr (data_i v AND JSON_VALUE_PAYLOAD_MASK)) \<and>
   (getTag v \<noteq> JSON_TAG_ARRAY \<longrightarrow> toElement v = Inl AssertionFailed) \<and>
   (getTag v = JSON_TAG_OBJECT \<longrightarrow> toPair v = Inr (data_i v AND JSON_VALUE_PAYLOAD_MASK)) \<and>
   (getTag v \<noteq> JSON_TAG_OBJECT \<longrightarrow> toPair v = Inl AssertionFailed)"
  using getPayload_tagged [of v] tags_distinct
  by (simp add: toNumber_def toBool_def toString_def toElement_def toPair_def)

theorem accessors_guarded_witness:
  "getTag \<lparr>data_i = 0x7FF9000000000001\<rparr> = JSON_TAG_BOOL \<and>
   toBool \<lparr>data_i = 0x7FF9000000000001\<rparr> = Inr True \<and>
   getTag \<lparr>data_i = 0x7FF9000000000001\<rparr> \<noteq> JSON_TAG_NUMBER \<and>
   toNumber \<lparr>data_i = 0x7FF9000000000001\<rparr> = Inl AssertionFailed \<and>
   toString \<lparr>data_i = 0x7FF9000000000001\<rparr> = Inl AssertionFailed \<and>
   toElement \<lparr>data_i = 0x7FF9000000000001\<rparr> = Inl AssertionFailed \<and>
   toPair \<lparr>data_i = 0x7FF9000000000001\<rparr> = Inl AssertionFailed"
proof -
  have a: "getTag \<lparr>data_i = 0x7FF9000000000001\<rparr> = JSON_TAG_BOOL"
    by (simp add: getTag_def isDouble_def JSON_VALUE_NAN_MASK_def JSON_VALUE_TAG_SHIFT_def
        JSON_VALUE_TAG_MASK_def JSON_TAG_BOOL_def)
  have b: "data_i \<lparr>data_i = 0x7FF9000000000001\<rparr> AND JSON_VALUE_PAYLOAD_MASK \<noteq> 0"
    by (simp add: JSON_VALUE_PAYLOAD_MASK_def)
  show ?thesis
    using a b accessors_guarded [of "\<lparr>data_i = 0x7FF9000000000001\<rparr>"]
    by (simp add: JSON_TAG_BOOL_def JSON_TAG_NUMBER_def JSON_TAG_STRING_def JSON_TAG_ARRAY_def
        JSON_TAG_OBJECT_def)
qed

subsection \<open>Limits of the tagged constructor\<close>

text \<open>
  Claim C5, as amended. The tagged constructor asserts \<open>(int)tag <= 0xF\<close> and
  \<open>(uint64_t)p <= 0x00007FFFFFFFFFFF\<close>: it fails an assertion exactly when the tag,
  read as a signed \<open>int\<close>, is above \<open>0xF\<close> or the pointer is above
  \<open>0x00007FFFFFFFFFFF\<close>. When the tag fits in 4 bits and the pointer in 47, both
  assertions pass and the stored word keeps every bit of both: masking it gives back
  the pointer, and shifting and masking it gives back the tag.
\<close>

theorem tagged_constructor_limits:
  "(JsonValue_tagged tag p = Inl AssertionFailed \<longleftrightarrow>
      \<not> (sint tag \<le> 0xF \<and> p \<le> 0x00007FFFFFFFFFFF)) \<and>
   (tag \<le> 0xF \<and> p \<le> 0x00007FFFFFFFFFFF \<longrightarrow>
      (\<exists>v. JsonValue_tagged tag p = Inr v \<and>
           data_i v AND JSON_VALUE_PAYLOAD_MASK = p \<and>
           drop_bit JSON_VALUE_TAG_SHIFT (data_i v) AND 0xF = ucast tag))"
proof (intro conjI impI)
  show "JsonValue_tagged tag p = Inl AssertionFailed \<longleftrightarrow>
      \<not> (sint tag \<le> 0xF \<and> p \<le> 0x00007FFFFFFFFFFF)"
    by (auto simp add: JsonValue_tagged_def JSON_VALUE_TAG_MASK_def JSON_VALUE_PAYLOAD_MASK_def)
next
  assume a: "tag \<le> 0xF \<and> p \<le> 0x00007FFFFFFFFFFF"
  then have t: "tag \<le> 15" and p: "p \<le> JSON_VALUE_PAYLOAD_MASK"
    by (simp_all add: JSON_VALUE_PAYLOAD_MASK_def)
  obtain v where v: "JsonValue_tagged tag p = Inr v"
    using JsonValue_tagged_ex [OF t p] by blast
  show "\<exists>v. JsonValue_tagged tag p = Inr v \<and>
           data_i v AND JSON_VALUE_PAYLOAD_MASK = p \<and>
           drop_bit JSON_VALUE_TAG_SHIFT (data_i v) AND 0xF = ucast tag"
    using v tagged_payload [OF v] tagged_tag_bits [OF t v]
    by (simp add: JSON_VALUE_TAG_SHIFT_def)
qed

theorem tagged_constructor_limits_witness:
  "JSON_TAG_OBJECT \<le> 0xF \<and> (0x00007FFFFFFFFFFF :: 64 word) \<le> 0x00007FFFFFFFFFFF \<and>
   (\<exists>v. JsonValue_tagged JSON_TAG_OBJECT 0x00007FFFFFFFFFFF = Inr v \<and>
        data_i v AND JSON_VALUE_PAYLOAD_MASK = 0x00007FFFFFFFFFFF \<and>
        drop_bit JSON_VALUE_TAG_SHIFT (data_i v) AND 0xF = ucast JSON_TAG_OBJECT) \<and>
   JsonValue_tagged JSON_TAG_OBJECT 0x0000800000000000 = Inl AssertionFailed \<and>
   JsonValue_tagged 16 0 = Inl AssertionFailed"
proof -
  have a: "JSON_TAG_OBJECT \<le> 0xF"
    by (simp add: JSON_TAG_OBJECT_def)
  have b: "\<not> sint (16 :: 32 word) \<le> 0xF"
    by simp
  show ?thesis
    using a b tagged_constructor_limits [of JSON_TAG_OBJECT "0x00007FFFFFFFFFFF"]
      tagged_constructor_limits [of JSON_TAG_OBJECT "0x0000800000000000"]
      tagged_constructor_limits [of 16 0]
    by simp
qed

text \<open>
  The claim as stated has the constructor assert \<open>(uint64_t)tag <= 0xF\<close>. The tag
  \<open>0xFFFFFFFF\<close> is above \<open>0xF\<close> as an unsigned value and is \<open>-1\<close> as an \<open>int\<close>: no
  assertion fails, and the word stored is \<open>0xFFFF800000000000\<close>.
\<close>

theorem tagged_constructor_limits_counterexample:
  "\<not> (ucast (0xFFFFFFFF :: 32 word) :: 64 word) \<le> 0xF \<and>
   (0 :: 64 word) \<le> 0x00007FFFFFFFFFFF \<and>
   JsonValue_tagged 0xFFFFFFFF 0 = Inr \<lparr>data_i = 0xFFFF800000000000\<rparr>"
  by (simp add: JsonValue_tagged_def JSON_VALUE_TAG_MASK_def JSON_VALUE_PAYLOAD_MASK_def
      JSON_VALUE_NAN_MASK_def JSON_VALUE_TAG_SHIFT_def)

subsection \<open>Construction of the allocator and its first zone\<close>

lemma allocate_new:
  assumes "head a = nullptr"
  shows "allocate place cap n align (a, m) =
    (let k = zone_request cap n align; b = place m k
     in if b = nullptr then Inl HostExhausted
        else
          (let p = align_up (unat b + sizeof_Zone) align
           in Inr (of_nat p, a\<lparr>head := b\<rparr>,
                   m\<lparr>zone_at := (zone_at m)
                         (b \<mapsto> \<lparr>zone_next = head a, zone_end = of_nat (p + n)\<rparr>),
                     zone_size := (zone_size m)(b \<mapsto> k)\<rparr>)))"
  using assms by (simp add: allocate_def)

lemma zone_chain_null: "zone_chain h nullptr zs \<longleftrightarrow> zs = []"
  by (auto intro: zone_chain.intros elim: zone_chain.cases)

lemma zone_chain_single:
  assumes "b \<noteq> nullptr" and "h b = Some z" and "zone_next z = nullptr"
  shows "zone_chain h b zs \<longleftrightarrow> zs = [b]"
proof
  assume "zone_chain h b zs"
  then show "zs = [b]"
    using assms by (cases rule: zone_chain.cases) (auto simp add: zone_chain_null)
next
  assume "zs = [b]"
  then show "zone_chain h b zs"
    using assms by (auto simp add: zone_chain_null intro: zone_chain.intros)
qed

text \<open>
  Claim C8. A newly constructed \<open>JsonAllocator\<close> has \<open>head\<close> equal to \<open>nullptr\<close>;
  constructing it leaves the memory as it was (no allocation is performed), and the
  chain of zones it owns is empty. The first zone is acquired by the first call of
  \<open>allocate\<close>: on the new allocator the call asks the host for one block, and when
  the host provides it the call returns with \<open>head\<close> at that block, the memory
  changed at that block only, and the chain of zones owned being that one zone; when
  the host provides none the call is the fatal abort.
\<close>

theorem allocator_construction:
  "head (fst (JsonAllocator_ctor m)) = nullptr \<and> snd (JsonAllocator_ctor m) = m \<and>
   (zone_chain (zone_at m) (head (fst (JsonAllocator_ctor m))) zs \<longleftrightarrow> zs = []) \<and>
   (allocate place cap n align (JsonAllocator_ctor m) = Inl HostExhausted \<longleftrightarrow>
      place m (zone_request cap n align) = nullptr) \<and>
   (allocate place cap n align (JsonAllocator_ctor m) = Inr (p, a', m') \<longrightarrow>
      head a' = place m (zone_request cap n align) \<and> head a' \<noteq> nullptr \<and>
      (zone_chain (zone_at m') (head a') zs' \<longleftrightarrow> zs' = [head a']) \<and>
      dom (zone_at m') = insert (head a') (dom (zone_at m)) \<and>
      (\<forall>q. q \<noteq> head a' \<longrightarrow> zone_at m' q = zone_at m q \<and> zone_size m' q = zone_size m q) \<and>
      zone_size m' (head a') = Some (zone_request cap n align) \<and>
      cap \<le> zone_request cap n align \<and> n \<le> zone_request cap n align)"
proof -
  let ?b = "place m (zone_request cap n align)"
  have c: "JsonAllocator_ctor m = (\<lparr>head = nullptr\<rparr>, m)"
    by (simp add: JsonAllocator_ctor_def)
  have al: "allocate place cap n align (JsonAllocator_ctor m) =
      (if ?b = nullptr then Inl HostExhausted
       else Inr (of_nat (align_up (unat ?b + sizeof_Zone) align), \<lparr>head = ?b\<rparr>,
         m\<lparr>zone_at := (zone_at m)(?b \<mapsto> \<lparr>zone_next = nullptr,
               zone_end = of_nat (align_up (unat ?b + sizeof_Zone) align + n)\<rparr>),
           zone_size := (zone_size m)(?b \<mapsto> zone_request cap n align)\<rparr>))"
    unfolding c by (simp add: allocate_new Let_def)
  have "head (fst (JsonAllocator_ctor m)) = nullptr \<and> snd (JsonAllocator_ctor m) = m"
    by (simp add: c)
  moreover have "zone_chain (zone_at m) (head (fst (JsonAllocator_ctor m))) zs \<longleftrightarrow> zs = []"
    by (simp add: c zone_chain_null)
  moreover have "allocate place cap n align (JsonAllocator_ctor m) = Inl HostExhausted \<longleftrightarrow>
      ?b = nullptr"
    by (simp add: al)
  moreover have "head a' = ?b \<and> head a' \<noteq> nullptr \<and>
      (zone_chain (zone_at m') (head a') zs' \<longleftrightarrow> zs' = [head a']) \<and>
      dom (zone_at m') = insert (head a') (dom (zone_at m)) \<and>
      (\<forall>q. q \<noteq> head a' \<longrightarrow> zone_at m' q = zone_at m q \<and> zone_size m' q = zone_size m q) \<and>
      zone_size m' (head a') = Some (zone_request cap n align) \<and>
      cap \<le> zone_request cap n align \<and> n \<le> zone_request cap n align"
    if r: "allocate place cap n align (JsonAllocator_ctor m) = Inr (p, a', m')"
  proof -
    from r have b: "?b \<noteq> nullptr"
      by (auto simp add: al split: if_splits)
    from r b have a': "a' = \<lparr>head = ?b\<rparr>"
      and m': "m' = m\<lparr>zone_at := (zone_at m)(?b \<mapsto> \<lparr>zone_next = nullptr,
               zone_end = of_nat (align_up (unat ?b + sizeof_Zone) align + n)\<rparr>),
           zone_size := (zone_size m)(?b \<mapsto> zone_request cap n align)\<rparr>"
      by (auto simp add: al)
    have h: "zone_at m' (head a') = Some \<lparr>zone_next = nullptr,
        zone_end = of_nat (align_up (unat ?b + sizeof_Zone) align + n)\<rparr>"
      by (simp add: a' m')
    have "head a' \<noteq> nullptr"
      using b by (simp add: a')
    then have "zone_chain (zone_at m') (head a') zs' \<longleftrightarrow> zs' = [head a']"
      using h by (rule zone_chain_single) simp
    then show ?thesis
      using b by (simp add: a' m' zone_request_def)
  qed
  ultimately show ?thesis
    by blast
qed

theorem allocator_construction_witness:
  "allocate (\<lambda>m k. 0x1000) 4096 24 8
       (JsonAllocator_ctor \<lparr>zone_at = Map.empty, zone_size = Map.empty\<rparr>) =
     Inr (0x1010, \<lparr>head = 0x1000\<rparr>,
          \<lparr>zone_at = [0x1000 \<mapsto> \<lparr>zone_next = nullptr, zone_end = 0x1028\<rparr>],
           zone_size = [0x1000 \<mapsto> 4096]\<rparr>) \<and>
   head \<lparr>head = 0x1000 :: pointer\<rparr> \<noteq> nullptr \<and>
   zone_chain [0x1000 \<mapsto> \<lparr>zone_next = nullptr, zone_end = 0x1028\<rparr>] 0x1000 [0x1000] \<and>
   dom [(0x1000 :: pointer) \<mapsto> \<lparr>zone_next = nullptr, zone_end = 0x1028\<rparr>] = {0x1000}"
proof -
  let ?m = "\<lparr>zone_at = Map.empty, zone_size = Map.empty\<rparr>"
  let ?m' = "\<lparr>zone_at = [0x1000 \<mapsto> \<lparr>zone_next = nullptr, zone_end = 0x1028\<rparr>],
           zone_size = [0x1000 \<mapsto> 4096]\<rparr>"
  have a: "allocate (\<lambda>m k. 0x1000) 4096 24 8 (JsonAllocator_ctor ?m) =
      Inr (0x1010, \<lparr>head = 0x1000\<rparr>, ?m')"
    by (simp add: allocate_def JsonAllocator_ctor_def zone_request_def sizeof_Zone_def
        align_up_def nullptr_def Let_def)
  show ?thesis
    using a allocator_construction [of ?m "[]" "\<lambda>m k. 0x1000" 4096 24 8 "0x1010"
        "\<lparr>head = 0x1000\<rparr>" ?m' "[0x1000]"]
    by simp
qed

subsection \<open>The default value is null\<close>

text \<open>
  Claim C9. The default constructor stores \<open>0x7FFF800000000000\<close>, the word that
  \<open>JsonValue(JSON_TAG_NULL, nullptr)\<close> builds, and its tag is \<open>JSON_TAG_NULL\<close>.
  \<open>operator bool\<close> is false for that word and for no other, so a value built with
  tag \<open>JSON_TAG_NULL\<close> and a pointer that is not null has tag \<open>JSON_TAG_NULL\<close> and
  converts to true.
\<close>

theorem default_is_null:
  "data_i JsonValue_default = 0x7FFF800000000000 \<and>
   JsonValue_tagged JSON_TAG_NULL nullptr = Inr JsonValue_default \<and>
   getTag JsonValue_default = JSON_TAG_NULL \<and>
   (operator_bool v \<longleftrightarrow> data_i v \<noteq> 0x7FFF800000000000) \<and>
   (p \<noteq> nullptr \<and> JsonValue_tagged JSON_TAG_NULL p = Inr w \<longrightarrow>
      getTag w = JSON_TAG_NULL \<and> operator_bool w)"
proof (intro conjI impI)
  show "data_i JsonValue_default = 0x7FFF800000000000"
    by (simp add: JsonValue_default_def JSON_VALUE_NULL_def)
  show d: "JsonValue_tagged JSON_TAG_NULL nullptr = Inr JsonValue_default"
    by (simp add: JsonValue_tagged_def JsonValue_default_def JSON_TAG_NULL_def nullptr_def
        JSON_VALUE_TAG_MASK_def JSON_VALUE_NULL_def JSON_VALUE_NAN_MASK_def JSON_VALUE_TAG_SHIFT_def)
  have n: "JSON_TAG_NULL \<le> 15"
    by (simp add: JSON_TAG_NULL_def)
  show "getTag JsonValue_default = JSON_TAG_NULL"
    by (rule tagged_getTag [OF n d])
  show "operator_bool v \<longleftrightarrow> data_i v \<noteq> 0x7FFF800000000000"
    by (simp add: operator_bool_def JSON_VALUE_NULL_def)
next
  assume a: "p \<noteq> nullptr \<and> JsonValue_tagged JSON_TAG_NULL p = Inr w"
  then have w: "JsonValue_tagged JSON_TAG_NULL p = Inr w" and p: "p \<noteq> 0"
    by (simp_all add: nullptr_def)
  have n: "JSON_TAG_NULL \<le> 15"
    by (simp add: JSON_TAG_NULL_def)
  show "getTag w = JSON_TAG_NULL"
    by (rule tagged_getTag [OF n w])
  have "data_i w AND JSON_VALUE_PAYLOAD_MASK \<noteq> 0"
    using p by (simp add: tagged_payload [OF w])
  moreover have "JSON_VALUE_NULL AND JSON_VALUE_PAYLOAD_MASK = 0"
    by (simp add: JSON_VALUE_NULL_def JSON_VALUE_PAYLOAD_MASK_def)
  ultimately show "operator_bool w"
    by (auto simp add: operator_bool_def)
qed

theorem default_is_null_witness:
  "(1 :: 64 word) \<noteq> nullptr \<and>
   JsonValue_tagged JSON_TAG_NULL 1 = Inr \<lparr>data_i = 0x7FFF800000000001\<rparr> \<and>
   getTag \<lparr>data_i = 0x7FFF800000000001\<rparr> = JSON_TAG_NULL \<and>
   operator_bool \<lparr>data_i = 0x7FFF800000000001\<rparr>"
proof -
  have a: "(1 :: 64 word) \<noteq> nullptr"
    by (simp add: nullptr_def)
  have b: "JsonValue_tagged JSON_TAG_NULL 1 = Inr \<lparr>data_i = 0x7FFF800000000001\<rparr>"
    by (simp add: JsonValue_tagged_def JSON_TAG_NULL_def JSON_VALUE_TAG_MASK_def
        JSON_VALUE_PAYLOAD_MASK_def JSON_VALUE_NAN_MASK_def JSON_VALUE_TAG_SHIFT_def)
  show ?thesis
    using a b default_is_null [of JsonValue_default 1 "\<lparr>data_i = 0x7FFF800000000001\<rparr>"] by simp
qed

subsection \<open>Classification by one signed comparison\<close>

lemma ucast_tag_zero:
  "(ucast (w AND 0xF :: 64 word) :: 32 word) = 0 \<longleftrightarrow> w AND 0xF = 0"
proof -
  have m: "(0xF :: 64 word) = mask 4"
    by (simp add: mask_eq_exp_minus_1)
  have "ucast (ucast (w AND mask 4) :: 32 word) = (w AND mask 4 :: 64 word)"
    by (rule bit_eqI) (auto simp add: bit_ucast_iff bit_and_iff bit_mask_iff)
  then show ?thesis
    unfolding m by (metis ucast_0)
qed

text \<open>
  Claim C10, as amended. \<open>isDouble\<close> is the single signed comparison of the word
  with \<open>0x7FF8000000000000\<close>. \<open>getTag\<close> returns \<open>JSON_TAG_NUMBER\<close> for exactly the
  words that pass that comparison or whose bits 47 to 50 are all zero. Every word with
  the sign bit set and the pattern of plus infinity have tag \<open>JSON_TAG_NUMBER\<close>. Every
  word the tagged constructor builds for a tag of at most \<open>0xF\<close> has the sign bit
  clear and a signed value of at least \<open>0x7FF8000000000000\<close>, strictly greater unless
  the tag is \<open>JSON_TAG_NUMBER\<close> and the pointer is null.
\<close>

theorem number_classification:
  "(isDouble v \<longleftrightarrow> sint (data_i v) \<le> 0x7FF8000000000000) \<and>
   (getTag v = JSON_TAG_NUMBER \<longleftrightarrow>
      sint (data_i v) \<le> 0x7FF8000000000000 \<or> drop_bit 47 (data_i v) AND 0xF = 0) \<and>
   (bit (data_i v) 63 \<longrightarrow> getTag v = JSON_TAG_NUMBER) \<and>
   getTag (JsonValue_double double_pos_infinity) = JSON_TAG_NUMBER \<and>
   (tag \<le> 0xF \<and> JsonValue_tagged tag p = Inr w \<longrightarrow>
      \<not> bit (data_i w) 63 \<and> 0x7FF8000000000000 \<le> sint (data_i w) \<and>
      (tag \<noteq> JSON_TAG_NUMBER \<or> p \<noteq> nullptr \<longrightarrow> 0x7FF8000000000000 < sint (data_i w)))"
proof (intro conjI impI)
  show i: "isDouble v \<longleftrightarrow> sint (data_i v) \<le> 0x7FF8000000000000"
    by (simp add: isDouble_def sint_nan_mask)
  show "getTag v = JSON_TAG_NUMBER \<longleftrightarrow>
      sint (data_i v) \<le> 0x7FF8000000000000 \<or> drop_bit 47 (data_i v) AND 0xF = 0"
    using ucast_tag_zero [of "drop_bit 47 (data_i v)"]
    by (auto simp add: getTag_def i JSON_TAG_NUMBER_def JSON_VALUE_TAG_SHIFT_def
        JSON_VALUE_TAG_MASK_def)
  show "getTag v = JSON_TAG_NUMBER" if "bit (data_i v) 63"
    using that by (simp add: getTag_def isDouble_iff)
  show "getTag (JsonValue_double double_pos_infinity) = JSON_TAG_NUMBER"
    by (simp add: getTag_def isDouble_def JsonValue_double_def double_pos_infinity_def
        JSON_VALUE_NAN_MASK_def)
next
  assume "tag \<le> 0xF \<and> JsonValue_tagged tag p = Inr w"
  then have t: "tag \<le> 15" and w: "JsonValue_tagged tag p = Inr w"
    by simp_all
  show s: "\<not> bit (data_i w) 63"
    by (rule tagged_sign_clear [OF t w])
  have u: "sint (data_i w) = uint (data_i w)"
    by (rule sint_eq_uint_64 [OF s])
  have n: "uint JSON_VALUE_NAN_MASK = 0x7FF8000000000000"
    by (simp add: JSON_VALUE_NAN_MASK_def)
  show "0x7FF8000000000000 \<le> sint (data_i w)"
    using tagged_ge_nan [OF s w] by (simp add: u word_le_def n)
  show "0x7FF8000000000000 < sint (data_i w)" if "tag \<noteq> JSON_TAG_NUMBER \<or> p \<noteq> nullptr"
  proof -
    have "data_i w \<noteq> JSON_VALUE_NAN_MASK"
      using that by (auto simp add: tagged_eq_nan_iff [OF t w] JSON_TAG_NUMBER_def nullptr_def)
    then have "JSON_VALUE_NAN_MASK < data_i w"
      using tagged_ge_nan [OF s w] by simp
    then show ?thesis
      by (simp add: u word_less_def n)
  qed
qed

theorem number_classification_witness:
  "bit (0xFFF8000000000001 :: 64 word) 63 \<and>
   getTag \<lparr>data_i = 0xFFF8000000000001\<rparr> = JSON_TAG_NUMBER \<and>
   JSON_TAG_STRING \<le> 0xF \<and>
   JsonValue_tagged JSON_TAG_STRING 0 = Inr \<lparr>data_i = 0x7FF8800000000000\<rparr> \<and>
   (0x7FF8000000000000 :: int) < sint (0x7FF8800000000000 :: 64 word)"
proof -
  have a: "bit (0xFFF8000000000001 :: 64 word) 63"
    by (simp add: bit_iff_odd)
  have b: "JsonValue_tagged JSON_TAG_STRING 0 = Inr \<lparr>data_i = 0x7FF8800000000000\<rparr>"
    by (simp add: JsonValue_tagged_def JSON_TAG_STRING_def JSON_VALUE_TAG_MASK_def
        JSON_VALUE_PAYLOAD_MASK_def JSON_VALUE_NAN_MASK_def JSON_VALUE_TAG_SHIFT_def)
  have c: "JSON_TAG_STRING \<noteq> JSON_TAG_NUMBER" "JSON_TAG_STRING \<le> 0xF"
    by (simp_all add: JSON_TAG_STRING_def JSON_TAG_NUMBER_def)
  show ?thesis
    using a b c
      number_classification [of "\<lparr>data_i = 0xFFF8000000000001\<rparr>" JSON_TAG_STRING 0
        "\<lparr>data_i = 0x7FF8800000000000\<rparr>"]
    by simp
qed

text \<open>
  The claim as stated fails at three words. \<open>0x7FF8000000000001\<close> does not pass the
  signed comparison and has tag \<open>JSON_TAG_NUMBER\<close>. The tagged constructor stores
  exactly \<open>0x7FF8000000000000\<close> for \<open>JSON_TAG_NUMBER\<close> and the null pointer. For the
  tag \<open>0xFFFFFFFF\<close>, which passes the assertion on \<open>(int)tag\<close>, it stores a word with
  the sign bit set.
\<close>

theorem number_classification_counterexample:
  "getTag \<lparr>data_i = 0x7FF8000000000001\<rparr> = JSON_TAG_NUMBER \<and>
   \<not> sint (0x7FF8000000000001 :: 64 word) \<le> 0x7FF8000000000000 \<and>
   JsonValue_tagged JSON_TAG_NUMBER nullptr = Inr \<lparr>data_i = 0x7FF8000000000000\<rparr> \<and>
   \<not> 0x7FF8000000000000 < sint (0x7FF8000000000000 :: 64 word) \<and>
   JsonValue_tagged 0xFFFFFFFF nullptr = Inr \<lparr>data_i = 0xFFFF800000000000\<rparr> \<and>
   bit (0xFFFF800000000000 :: 64 word) 63"
  by (simp add: getTag_def isDouble_def JsonValue_tagged_def JSON_TAG_NUMBER_def nullptr_def
      JSON_VALUE_TAG_MASK_def JSON_VALUE_PAYLOAD_MASK_def JSON_VALUE_NAN_MASK_def
      JSON_VALUE_TAG_SHIFT_def bit_iff_odd)

section \<open>Properties of the modelled parser\<close>

subsection \<open>The builder reads the grammar\<close>

lemma layout_Object: "layout (Object ps) = LBrace # separated (map pair_layout ps) @ [RBrace]"
proof -
  have "pair_layout = (\<lambda>p. TString (fst p) # Colon # layout (snd p))"
    by (simp add: fun_eq_iff pair_layout_def)
  then show ?thesis
    by simp
qed

lemma separated_snoc: "separated (xs @ [x]) = followed xs @ x"
  by (induction xs rule: separated.induct) (simp_all add: followed_def)

lemma followed_separated: "xs \<noteq> [] \<Longrightarrow> followed xs = separated xs @ [Comma]"
  by (induction xs rule: separated.induct) (simp_all add: followed_def)

lemma scalar_layout: "scalar t = Some v \<Longrightarrow> layout v = [t]"
  by (cases t) auto

lemma read_complete: "read_so_far (complete v st) = opened st @ layout v"
  by (induction v st rule: complete.induct) (simp_all add: separated_snoc pair_layout_def)

lemma reachable_complete: "reachable (complete v st)"
  by (induction v st rule: complete.induct) simp_all

lemma on_value_read:
  assumes "on_value st t = Inr s'"
  shows "reachable s' \<and> read_so_far s' = opened st @ [t]"
  using assms
  by (auto simp add: on_value_def read_complete reachable_complete scalar_layout
      split: option.splits if_splits)

lemma on_key_read:
  assumes "on_key ps st t = Inr s'"
  shows "reachable s' \<and> read_so_far s' = opened st @ LBrace # followed (map pair_layout ps) @ [t]"
  using assms by (cases t) (auto simp add: on_key_def)

lemma step_read:
  assumes "reachable s" and "step s t = Inr s'"
  shows "reachable s' \<and> read_so_far s' = read_so_far s @ [t]"
proof (cases s)
  case (ExpectValue st)
  with assms show ?thesis
    using on_value_read [of st t s'] by simp
next
  case (ArrayOpened st)
  with assms show ?thesis
    using on_value_read [of "InArray [] # st" t s']
    by (auto simp add: read_complete reachable_complete followed_def split: if_splits)
next
  case (ObjectOpened st)
  with assms show ?thesis
    using on_key_read [of "[]" st t s']
    by (auto simp add: read_complete reachable_complete followed_def split: if_splits)
next
  case (ExpectKey ps st)
  with assms show ?thesis
    using on_key_read [of ps st t s'] by simp
next
  case (ExpectColon ps k st)
  with assms show ?thesis
    by (auto split: if_splits)
next
  case (AfterElement es st)
  with assms show ?thesis
    by (auto simp add: read_complete reachable_complete followed_separated split: if_splits)
next
  case (AfterMember ps st)
  with assms show ?thesis
    by (auto simp add: read_complete reachable_complete followed_separated layout_Object
        simp del: layout.simps split: if_splits)
next
  case (Finished v)
  with assms show ?thesis by simp
qed

lemma finish_OK: "finish s e = (JSON_PARSE_OK, e', Some v) \<longleftrightarrow> s = Finished v \<and> e' = e"
  by (cases "(s, e)" rule: finish.cases) auto

lemma run_sound:
  assumes "reachable s" and "run s ts fin = (JSON_PARSE_OK, e, Some v)"
  shows "read_so_far s @ map snd ts = layout v \<and> fin = (JSON_PARSE_OK, e)"
  using assms
proof (induction ts arbitrary: s)
  case Nil
  then show ?case
    by (cases fin) (auto simp add: finish_OK split: if_splits)
next
  case (Cons pt ts)
  from Cons.prems(2) obtain s' where s': "step s (snd pt) = Inr s'"
    and r: "run s' ts fin = (JSON_PARSE_OK, e, Some v)"
    by (auto split: sum.splits)
  from step_read [OF Cons.prems(1) s']
  have "reachable s'" and "read_so_far s' = read_so_far s @ [snd pt]"
    by simp_all
  with Cons.IH [OF _ r] show ?case
    by simp
qed

subsection \<open>The builder accepts the grammar\<close>

lemma layout_first: "\<exists>t r. layout v = t # r \<and> t \<noteq> RBracket \<and> t \<noteq> RBrace"
  by (cases v) simp_all

lemma run_ArrayOpened:
  assumes "map snd ts = layout v @ r"
  shows "run (ArrayOpened st) (ts @ ts') fin = run (ExpectValue (InArray [] # st)) (ts @ ts') fin"
proof -
  from layout_first [of v] assms obtain pt ts0 where "ts = pt # ts0" and "snd pt \<noteq> RBracket"
    by (auto simp add: map_eq_Cons_conv)
  then show ?thesis
    by simp
qed

lemma run_ObjectOpened:
  assumes "map snd ts = TString k # r"
  shows "run (ObjectOpened st) (ts @ ts') fin = run (ExpectKey [] st) (ts @ ts') fin"
proof -
  from assms obtain pt ts0 where "ts = pt # ts0" and "snd pt = TString k"
    by (auto simp add: map_eq_Cons_conv)
  then show ?thesis
    by simp
qed

lemma run_elements:
  assumes val: "\<And>v st ts1 ts2. v \<in> set vs \<Longrightarrow> map snd ts1 = layout v \<Longrightarrow>
      run (ExpectValue st) (ts1 @ ts2) fin = run (complete v st) ts2 fin"
    and "vs \<noteq> []"
    and "map snd mid = separated (map layout vs)"
  shows "run (ExpectValue (InArray es # st)) (mid @ (q, RBracket) # ts2) fin =
    run (complete (Array (es @ vs)) st) ts2 fin"
  using assms
proof (induction vs arbitrary: es mid)
  case Nil
  then show ?case by simp
next
  case (Cons v vs)
  show ?case
  proof (cases vs)
    case Nil
    with Cons.prems(3) have "map snd mid = layout v"
      by simp
    then have "run (ExpectValue (InArray es # st)) (mid @ (q, RBracket) # ts2) fin =
        run (complete v (InArray es # st)) ((q, RBracket) # ts2) fin"
      by (rule Cons.prems(1) [rotated]) simp
    with Nil show ?thesis
      by simp
  next
    case (Cons w ws)
    with Cons.prems(3) obtain a c b where mid: "mid = a @ c # b"
      and a: "map snd a = layout v" and c: "snd c = Comma"
      and b: "map snd b = separated (map layout vs)"
      by (auto simp add: map_eq_append_conv map_eq_Cons_conv)
    have "run (ExpectValue (InArray es # st)) (a @ c # b @ (q, RBracket) # ts2) fin =
        run (complete v (InArray es # st)) (c # b @ (q, RBracket) # ts2) fin"
      using a by (rule Cons.prems(1) [rotated]) simp
    also have "\<dots> = run (ExpectValue (InArray (es @ [v]) # st)) (b @ (q, RBracket) # ts2) fin"
      using c by simp
    also have "\<dots> = run (complete (Array ((es @ [v]) @ vs)) st) ts2 fin"
      using Cons b by (intro Cons.IH Cons.prems(1)) simp_all
    finally show ?thesis
      by (simp add: mid)
  qed
qed

lemma run_member:
  assumes val: "\<And>st ts1 ts2. map snd ts1 = layout (snd p) \<Longrightarrow>
      run (ExpectValue st) (ts1 @ ts2) fin = run (complete (snd p) st) ts2 fin"
    and "map snd ts = pair_layout p"
  shows "run (ExpectKey ps st) (ts @ ts2) fin = run (AfterMember (ps @ [p]) st) ts2 fin"
proof -
  from assms(2) obtain k c a where ts: "ts = k # c # a"
    and k: "snd k = TString (fst p)" and c: "snd c = Colon" and a: "map snd a = layout (snd p)"
    by (auto simp add: pair_layout_def map_eq_Cons_conv)
  have "run (ExpectKey ps st) (ts @ ts2) fin =
      run (ExpectValue (InObject ps (fst p) # st)) (a @ ts2) fin"
    using k c by (simp add: ts on_key_def)
  also have "\<dots> = run (complete (snd p) (InObject ps (fst p) # st)) ts2 fin"
    using a by (rule val)
  finally show ?thesis
    by simp
qed

lemma run_members:
  assumes val: "\<And>p st ts1 ts2. p \<in> set qs \<Longrightarrow> map snd ts1 = layout (snd p) \<Longrightarrow>
      run (ExpectValue st) (ts1 @ ts2) fin = run (complete (snd p) st) ts2 fin"
    and "qs \<noteq> []"
    and "map snd mid = separated (map pair_layout qs)"
  shows "run (ExpectKey ps st) (mid @ (q, RBrace) # ts2) fin =
    run (complete (Object (ps @ qs)) st) ts2 fin"
  using assms
proof (induction qs arbitrary: ps mid)
  case Nil
  then show ?case by simp
next
  case (Cons p qs)
  have p: "run (ExpectKey ps st) (ts @ ts') fin = run (AfterMember (ps @ [p]) st) ts' fin"
    if "map snd ts = pair_layout p" for ts ts'
    using that by (intro run_member Cons.prems(1)) simp_all
  show ?case
  proof (cases qs)
    case Nil
    with Cons.prems(3) have "map snd mid = pair_layout p"
      by simp
    with Nil show ?thesis
      by (simp add: p)
  next
    case (Cons w ws)
    with Cons.prems(3) obtain a c b where mid: "mid = a @ c # b"
      and a: "map snd a = pair_layout p" and c: "snd c = Comma"
      and b: "map snd b = separated (map pair_layout qs)"
      by (auto simp add: map_eq_append_conv map_eq_Cons_conv)
    have "run (ExpectKey ps st) (a @ c # b @ (q, RBrace) # ts2) fin =
        run (AfterMember (ps @ [p]) st) (c # b @ (q, RBrace) # ts2) fin"
      using a by (rule p)
    also have "\<dots> = run (ExpectKey (ps @ [p]) st) (b @ (q, RBrace) # ts2) fin"
      using c by simp
    also have "\<dots> = run (complete (Object ((ps @ [p]) @ qs)) st) ts2 fin"
      using Cons b by (intro Cons.IH Cons.prems(1)) simp_all
    finally show ?thesis
      by (simp add: mid)
  qed
qed

lemma run_layout:
  assumes "map snd ts1 = layout v"
  shows "run (ExpectValue st) (ts1 @ ts2) fin = run (complete v st) ts2 fin"
  using assms
proof (induction v arbitrary: st ts1 ts2)
  case Null
  then show ?case
    by (auto simp add: map_eq_Cons_conv on_value_def)
next
  case (Bool b)
  then show ?case
    by (auto simp add: map_eq_Cons_conv on_value_def)
next
  case (Number d)
  then show ?case
    by (auto simp add: map_eq_Cons_conv on_value_def)
next
  case (String s)
  then show ?case
    by (auto simp add: map_eq_Cons_conv on_value_def)
next
  case (Array vs)
  from Array.prems obtain p mid q where ts1: "ts1 = p # mid @ [q]"
    and p: "snd p = LBracket" and q: "snd q = RBracket"
    and mid: "map snd mid = separated (map layout vs)"
    by (auto simp add: map_eq_Cons_conv map_eq_append_conv)
  have o: "run (ExpectValue st) (ts1 @ ts2) fin = run (ArrayOpened st) (mid @ q # ts2) fin"
    using p by (simp add: ts1 on_value_def)
  show ?case
  proof (cases vs)
    case Nil
    with mid q show ?thesis
      by (simp add: o)
  next
    case (Cons w ws)
    with mid have "map snd mid = layout w @ drop (length (layout w)) (map snd mid)"
      by (cases ws) simp_all
    then have "run (ArrayOpened st) (mid @ q # ts2) fin =
        run (ExpectValue (InArray [] # st)) (mid @ q # ts2) fin"
      by (rule run_ArrayOpened)
    also have "\<dots> = run (complete (Array ([] @ vs)) st) ts2 fin"
    proof -
      have "q = (fst q, RBracket)"
        using q by (cases q) simp
      then show ?thesis
        using Cons mid run_elements [of vs fin mid "[]" st "fst q" ts2] Array.IH
        by simp
    qed
    finally show ?thesis
      by (simp add: o)
  qed
next
  case (Object ps)
  from Object.prems obtain p mid q where ts1: "ts1 = p # mid @ [q]"
    and p: "snd p = LBrace" and q: "snd q = RBrace"
    and mid: "map snd mid = separated (map pair_layout ps)"
    by (auto simp add: layout_Object map_eq_Cons_conv map_eq_append_conv simp del: layout.simps)
  have o: "run (ExpectValue st) (ts1 @ ts2) fin = run (ObjectOpened st) (mid @ q # ts2) fin"
    using p by (simp add: ts1 on_value_def)
  show ?case
  proof (cases ps)
    case Nil
    with mid q show ?thesis
      by (simp add: o)
  next
    case (Cons w ws)
    with mid have "map snd mid = TString (fst w) # drop 1 (map snd mid)"
      by (cases ws) (simp_all add: pair_layout_def)
    then have "run (ObjectOpened st) (mid @ q # ts2) fin =
        run (ExpectKey [] st) (mid @ q # ts2) fin"
      by (rule run_ObjectOpened)
    also have "\<dots> = run (complete (Object ([] @ ps)) st) ts2 fin"
    proof -
      have "run (ExpectValue st') (a @ b) fin = run (complete (snd m) st') b fin"
        if "m \<in> set ps" and "map snd a = layout (snd m)" for m st' a b
        using that Object.IH [of m "snd m" a st' b] by (simp add: snds.intros)
      moreover have "q = (fst q, RBrace)"
        using q by (cases q) simp
      ultimately show ?thesis
        using Cons mid run_members [of ps fin mid "[]" st "fst q" ts2]
        by simp
    qed
    finally show ?thesis
      by (simp add: o)
  qed
qed

lemma run_complete:
  assumes "map snd ts = layout v"
  shows "run (ExpectValue []) ts (JSON_PARSE_OK, e) = (JSON_PARSE_OK, e, Some v)"
  using run_layout [OF assms, of "[]" "[]" "(JSON_PARSE_OK, e)"] by simp

subsection \<open>Offsets of the tokens\<close>

lemma scan_string_length: "scan_string cs = Inr (s, n) \<Longrightarrow> n \<le> length cs"
proof (induction cs arbitrary: s n rule: scan_string.induct)
  case 1
  then show ?case by simp
next
  case (2 c cs)
  show ?case
  proof (cases "c = CHR 0x22")
    case True
    with "2.prems" show ?thesis by simp
  next
    case quote: False
    show ?thesis
    proof (cases "c = CHR 0x5C")
      case True
      with quote "2.prems" obtain bs k s' m where e: "scan_escape cs = Some (bs, k)"
        and r: "scan_string (drop k cs) = Inr (s', m)" and n: "n = Suc (k + m)"
        by (auto split: option.splits sum.splits)
      from "2.IH"(1) [OF quote True e refl r] have m: "m \<le> length cs - k"
        by simp
      have "k \<le> length cs"
      proof (rule ccontr)
        assume "\<not> k \<le> length cs"
        then have "drop k cs = []" by simp
        with r show False by simp
      qed
      with m n show ?thesis
        by simp
    next
      case False
      with quote "2.prems" obtain s' m where r: "scan_string cs = Inr (s', m)" and n: "n = Suc m"
        by (auto split: sum.splits)
      from "2.IH"(2) [OF quote False r] n show ?thesis
        by simp
    qed
  qed
qed

lemma scan_string_not_OK: "scan_string cs \<noteq> Inl JSON_PARSE_OK"
proof (induction cs rule: scan_string.induct)
  case 1
  then show ?case by simp
next
  case (2 c cs)
  then show ?case
    by (auto split: option.splits sum.splits)
qed

lemma scan_number_result:
  assumes "scan_number rng cs = r"
  obtains err where "r = Inl err" and "err \<noteq> JSON_PARSE_OK"
  | d k where "r = Inr (d, k)" and "k \<le> length cs"
proof -
  have "(\<exists>err. r = Inl err \<and> err \<noteq> JSON_PARSE_OK) \<or> (\<exists>d k. r = Inr (d, k) \<and> k \<le> length cs)"
    if "r = (if A then Inl JSON_PARSE_BAD_NUMBER
         else if B then Inl JSON_PARSE_BAD_NUMBER
         else if C then Inl JSON_PARSE_OVERFLOW
         else if D then Inl JSON_PARSE_UNDERFLOW
         else Inr (x, length cs - l))" for A B C D x l
    using that by simp
  then have "(\<exists>err. r = Inl err \<and> err \<noteq> JSON_PARSE_OK) \<or> (\<exists>d k. r = Inr (d, k) \<and> k \<le> length cs)"
    using assms [symmetric] unfolding scan_number_def Let_def by blast
  then show thesis
    using that by blast
qed

lemma scan_identifier_result:
  assumes "scan_identifier cs = r"
  obtains err where "r = Inl err" and "err \<noteq> JSON_PARSE_OK"
  | t k where "r = Inr (t, k)" and "k \<le> length cs"
proof -
  have "length (takeWhile is_letter cs) \<le> length cs"
    by (rule length_takeWhile_le)
  then have "(\<exists>err. r = Inl err \<and> err \<noteq> JSON_PARSE_OK) \<or> (\<exists>t k. r = Inr (t, k) \<and> k \<le> length cs)"
    using assms [symmetric] by (auto simp add: scan_identifier_def Let_def)
  then show thesis
    using that by blast
qed

lemma scan_result:
  assumes "scan rng c cs = r"
  obtains err where "r = Inl err" and "err \<noteq> JSON_PARSE_OK"
  | t n where "r = Inr (t, n)" and "n \<le> length cs"
proof -
  let ?goal = "(\<exists>err. r = Inl err \<and> err \<noteq> JSON_PARSE_OK) \<or> (\<exists>t n. r = Inr (t, n) \<and> n \<le> length cs)"
  have str: ?goal if "r = (case scan_string cs of Inl err \<Rightarrow> Inl err | Inr (s, n) \<Rightarrow> Inr (TString s, n))"
    using that scan_string_not_OK [of cs] scan_string_length [of cs]
    by (auto split: sum.splits)
  have num: ?goal if "r = (case scan_number rng (c # cs) of Inl err \<Rightarrow> Inl err
      | Inr (d, n) \<Rightarrow> Inr (TNumber d, n - 1))"
    by (rule scan_number_result [OF refl, of rng "c # cs"]) (use that in auto)
  have ide: ?goal if "r = (case scan_identifier (c # cs) of Inl err \<Rightarrow> Inl err
      | Inr (t, n) \<Rightarrow> Inr (t, n - 1))"
    by (rule scan_identifier_result [OF refl, of "c # cs"]) (use that in auto)
  have ?goal
    using assms [symmetric] str num ide unfolding scan_def
    by (simp split: if_splits)
  then show thesis
    using that by blast
qed

lemma scan_length:
  assumes "scan rng c cs = Inr (t, n)"
  shows "n \<le> length cs"
  using assms by (rule scan_result) simp_all

lemma scan_not_OK: "scan rng c cs \<noteq> Inl JSON_PARSE_OK"
  by (rule scan_result [OF refl, of rng c cs]) simp_all

lemma tokenize_offsets:
  assumes "tokenize rng i str = (ts, fin)"
  shows "sorted_wrt (<) (map fst ts) \<and> (\<forall>p \<in> set (map fst ts). i \<le> p \<and> p < i + length str) \<and>
    (fst fin = JSON_PARSE_OK \<longrightarrow> snd fin = i + length str)"
  using assms
proof (induction rng i str arbitrary: ts fin rule: tokenize.induct)
  case (1 rng i)
  then show ?case by auto
next
  case (2 rng i c cs)
  show ?case
  proof (cases "is_space c")
    case True
    with "2.prems" have "tokenize rng (Suc i) cs = (ts, fin)"
      by simp
    from "2.IH"(1) [OF True this] show ?thesis
      by auto
  next
    case False
    show ?thesis
    proof (cases "scan rng c cs")
      case (Inl err)
      with False "2.prems" scan_not_OK [of rng c cs] show ?thesis
        by auto
    next
      case (Inr tn)
      obtain t n where tn: "tn = (t, n)"
        by (cases tn)
      obtain ts' fin' where r: "tokenize rng (Suc (i + n)) (drop n cs) = (ts', fin')"
        by (cases "tokenize rng (Suc (i + n)) (drop n cs)")
      from False Inr tn r "2.prems" have ts: "ts = (i, t) # ts'" and fin: "fin = fin'"
        by simp_all
      from scan_length [of rng c cs t n] Inr tn have n: "n \<le> length cs"
        by simp
      from "2.IH"(2) [OF False Inr tn [symmetric] r] n show ?thesis
        by (auto simp add: ts fin)
    qed
  qed
qed

subsection \<open>Source order\<close>

text \<open>
  Claim C6. For every text, \<open>json_parse\<close> succeeds with the root \<open>v\<close> exactly when
  the text is read to its end as the tokens of \<open>layout v\<close>, the spelling of \<open>v\<close> in
  which the elements of every array and the members of every object come in the
  order of their list, first to last. The tokens are listed by increasing offset in
  the text, so the order of the list is the left-to-right order of the text: the
  link order of every parsed array and object is the source order, neither reversed
  nor sorted.
\<close>

theorem json_parse_source_order:
  "(fst (json_parse rng str) = JSON_PARSE_OK \<and> snd (snd (json_parse rng str)) = Some v \<longleftrightarrow>
      fst (snd (tokenize rng 0 str)) = JSON_PARSE_OK \<and>
      map snd (fst (tokenize rng 0 str)) = layout v) \<and>
   sorted_wrt (<) (map fst (fst (tokenize rng 0 str)))"
proof -
  obtain ts fin where t: "tokenize rng 0 str = (ts, fin)"
    by (cases "tokenize rng 0 str")
  obtain status e where fin: "fin = (status, e)"
    by (cases fin)
  have p: "json_parse rng str = run (ExpectValue []) ts fin"
    by (simp add: json_parse_def t)
  have "status = JSON_PARSE_OK \<and> map snd ts = layout v"
    if "fst (json_parse rng str) = JSON_PARSE_OK" and "snd (snd (json_parse rng str)) = Some v"
  proof -
    from that have "run (ExpectValue []) ts fin = (JSON_PARSE_OK, fst (snd (json_parse rng str)), Some v)"
      by (simp add: p prod_eq_iff)
    from run_sound [OF _ this] show ?thesis
      by (simp add: fin)
  qed
  moreover have "fst (json_parse rng str) = JSON_PARSE_OK \<and> snd (snd (json_parse rng str)) = Some v"
    if "status = JSON_PARSE_OK" and "map snd ts = layout v"
    using that run_complete [of ts v e] by (simp add: p fin)
  moreover have "sorted_wrt (<) (map fst ts)"
    using tokenize_offsets [OF t] by simp
  ultimately show ?thesis
    by (auto simp add: t fin)
qed

theorem json_parse_source_order_witness:
  "map snd (fst (tokenize (-308, 308) 0 ''[3,1,2]'')) =
     layout (Array [Number (3, 0), Number (1, 0), Number (2, 0)]) \<and>
   json_parse (-308, 308) ''[3,1,2]'' =
     (JSON_PARSE_OK, 7, Some (Array [Number (3, 0), Number (1, 0), Number (2, 0)])) \<and>
   map snd (fst (tokenize (-308, 308) 0
       (''{'' @ CHR 0x22 # ''a'' @ CHR 0x22 # '':1,'' @ CHR 0x22 # ''b'' @ CHR 0x22 # '':2}''))) =
     layout (Object [(''a'', Number (1, 0)), (''b'', Number (2, 0))]) \<and>
   json_parse (-308, 308)
       (''{'' @ CHR 0x22 # ''a'' @ CHR 0x22 # '':1,'' @ CHR 0x22 # ''b'' @ CHR 0x22 # '':2}'') =
     (JSON_PARSE_OK, 13, Some (Object [(''a'', Number (1, 0)), (''b'', Number (2, 0))]))"
proof -
  let ?a = "''[3,1,2]''"
  let ?o = "''{'' @ CHR 0x22 # ''a'' @ CHR 0x22 # '':1,'' @ CHR 0x22 # ''b'' @ CHR 0x22 # '':2}''"
  have a: "tokenize (-308, 308) 0 ?a =
      ([(0, LBracket), (1, TNumber (3, 0)), (2, Comma), (3, TNumber (1, 0)), (4, Comma),
        (5, TNumber (2, 0)), (6, RBracket)], (JSON_PARSE_OK, 7))"
    by code_simp
  have o: "tokenize (-308, 308) 0 ?o =
      ([(0, LBrace), (1, TString ''a''), (4, Colon), (5, TNumber (1, 0)), (6, Comma),
        (7, TString ''b''), (10, Colon), (11, TNumber (2, 0)), (12, RBrace)], (JSON_PARSE_OK, 13))"
    by code_simp
  have la: "map snd (fst (tokenize (-308, 308) 0 ?a)) =
      layout (Array [Number (3, 0), Number (1, 0), Number (2, 0)])"
    by (simp only: a) simp
  have lo: "map snd (fst (tokenize (-308, 308) 0 ?o)) =
      layout (Object [(''a'', Number (1, 0)), (''b'', Number (2, 0))])"
    by (simp only: o) simp
  have ea: "fst (snd (json_parse (-308, 308) ?a)) = 7"
    by (simp only: json_parse_def a) (simp add: on_value_def)
  have eo: "fst (snd (json_parse (-308, 308) ?o)) = 13"
    by (simp only: json_parse_def o) (simp add: on_value_def on_key_def)
  have sa: "fst (snd (tokenize (-308, 308) 0 ?a)) = JSON_PARSE_OK"
    by (simp only: a) simp
  have so: "fst (snd (tokenize (-308, 308) 0 ?o)) = JSON_PARSE_OK"
    by (simp only: o) simp
  have "fst (json_parse (-308, 308) ?a) = JSON_PARSE_OK \<and>
      snd (snd (json_parse (-308, 308) ?a)) = Some (Array [Number (3, 0), Number (1, 0), Number (2, 0)])"
    using json_parse_source_order [of "(-308, 308)" ?a
        "Array [Number (3, 0), Number (1, 0), Number (2, 0)]"] la sa
    by blast
  with ea have pa: "json_parse (-308, 308) ?a =
      (JSON_PARSE_OK, 7, Some (Array [Number (3, 0), Number (1, 0), Number (2, 0)]))"
    by (simp only: prod_eq_iff fst_conv snd_conv)
  have "fst (json_parse (-308, 308) ?o) = JSON_PARSE_OK \<and>
      snd (snd (json_parse (-308, 308) ?o)) = Some (Object [(''a'', Number (1, 0)), (''b'', Number (2, 0))])"
    using json_parse_source_order [of "(-308, 308)" ?o
        "Object [(''a'', Number (1, 0)), (''b'', Number (2, 0))]"] lo so
    by blast
  with eo have po: "json_parse (-308, 308) ?o =
      (JSON_PARSE_OK, 13, Some (Object [(''a'', Number (1, 0)), (''b'', Number (2, 0))]))"
    by (simp only: prod_eq_iff fst_conv snd_conv)
  from la pa lo po show ?thesis
    by blast
qed

end
